theory Spec2Isabelle
  imports Main
begin

section \<open>Go values\<close>

text \<open>
  The dynamic values an \<^verbatim>\<open>interface{}\<close> of package \<^verbatim>\<open>iffy\<close> can hold. A decoded JSON
  document is built from \<open>VNil\<close> (null), \<open>VBool\<close>, \<open>VNum\<close>, \<open>VStr\<close>, \<open>VList\<close> and \<open>VMap\<close>
  (a \<^verbatim>\<open>map[string]interface{}\<close>). \<open>VNilMap\<close> is the nil map of that same type: it has
  no key, like the empty map, but is a different value. \<open>VStrMap\<close> is a
  \<^verbatim>\<open>map[string]string\<close>, the second type the \<^verbatim>\<open>field\<close> function can walk. \<open>VOther\<close>
  stands for any other Go value, named by an opaque tag. Numbers are never computed
  with; the integers stand for the JSON numbers of the examples.
\<close>

datatype gval =
    VNil
  | VBool bool
  | VNum int
  | VStr string
  | VList "gval list"
  | VMap "string \<Rightarrow> gval option"
  | VNilMap
  | VStrMap "string \<Rightarrow> string option"
  | VOther string

text \<open>
  Errors are values. The first three are built by this package
  (\<^verbatim>\<open>cannot dereference %T\<close>, \<^verbatim>\<open>Missing node '%s'\<close>, \<^verbatim>\<open>Wrong value: expected '%v', got '%v'\<close>);
  \<open>Named\<close> is the \<^verbatim>\<open>"%s: %s"\<close> wrapping of a checker failure with the call name;
  \<open>External\<close> is an error made by a library or by caller code.
\<close>

datatype error =
    CannotDereference gval
  | MissingNode string
  | WrongValue string gval
  | Named string error
  | External string

type_synonym Values = "string \<Rightarrow> gval option"

section \<open>Template functions \<^verbatim>\<open>field\<close> and \<^verbatim>\<open>json\<close>\<close>

definition no_value :: string where
  "no_value = ''<no value>''"

text \<open>
  The loop of \<^verbatim>\<open>Values.fieldTmpl\<close>: \<open>i\<close> is the cursor, the list holds the keys still
  to visit. The type switch has a case for each of the two map types and a default that
  returns the error. A nil map has no key, so its lookup takes the \<^verbatim>\<open>!ok\<close> branch.
\<close>

fun field_loop :: "gval \<Rightarrow> string list \<Rightarrow> error + gval" where
  "field_loop i [] = Inr i"
| "field_loop i (k # ks) =
     (case i of
        VMap m \<Rightarrow> field_loop (case m k of Some x \<Rightarrow> x | None \<Rightarrow> VStr no_value) ks
      | VNilMap \<Rightarrow> field_loop (VStr no_value) ks
      | VStrMap m \<Rightarrow> field_loop (case m k of Some s \<Rightarrow> VStr s | None \<Rightarrow> VStr no_value) ks
      | _ \<Rightarrow> Inl (CannotDereference i))"

definition fieldTmpl :: "Values \<Rightarrow> string list \<Rightarrow> error + gval" where
  "fieldTmpl v key = field_loop (VMap v) key"

text \<open>
  \<^verbatim>\<open>Values.jsonFieldTmpl\<close>. \<^verbatim>\<open>json.Marshal\<close> belongs to the Go library and is a
  parameter: it gives the JSON text of a value or an error.
\<close>

definition jsonFieldTmpl ::
  "(gval \<Rightarrow> error + string) \<Rightarrow> Values \<Rightarrow> string list \<Rightarrow> error + gval" where
  "jsonFieldTmpl marshal v key =
     (case fieldTmpl v key of
        Inl err \<Rightarrow> Inl err
      | Inr i \<Rightarrow> (case marshal i of
                   Inl err \<Rightarrow> Inl err
                 | Inr marshalled \<Rightarrow> Inr (VStr marshalled)))"

text \<open>Words of the specification: a node is map-like when \<^verbatim>\<open>field\<close> can look a key up in
  it, and a key is absent on it when that lookup finds nothing.\<close>

fun map_like :: "gval \<Rightarrow> bool" where
  "map_like (VMap m) = True"
| "map_like VNilMap = True"
| "map_like (VStrMap m) = True"
| "map_like _ = False"

fun absent_key :: "gval \<Rightarrow> string \<Rightarrow> bool" where
  "absent_key (VMap m) k = (m k = None)"
| "absent_key VNilMap k = True"
| "absent_key (VStrMap m) k = (m k = None)"
| "absent_key _ k = False"

section \<open>Requests, responses and the Go library\<close>

text \<open>
  The part of \<^verbatim>\<open>*http.Request\<close> that \<^verbatim>\<open>Run\<close> touches, and the part of
  \<^verbatim>\<open>*http.Response\<close> that \<^verbatim>\<open>Run\<close> and the checkers read. \<open>resp_Body\<close> is \<open>None\<close> for a nil
  body; otherwise it holds what \<^verbatim>\<open>ioutil.ReadAll\<close> returns: the bytes and the read error.
\<close>

record request =
  rq_Method :: string
  rq_URL :: string
  rq_Body :: string
  rq_Header :: "string \<Rightarrow> string option"

record response =
  StatusCode :: int
  resp_Header :: "string \<Rightarrow> string option"
  resp_Body :: "(string \<times> error option) option"

type_synonym Checker = "response \<Rightarrow> string \<Rightarrow> gval option \<Rightarrow> error option"

text \<open>
  The functions of the Go standard library that the package calls are parameters,
  collected in one record:
  \<^item> \<open>template_Parse\<close>: \<^verbatim>\<open>template.New("tmpl").Funcs(funcMap).Parse\<close>, the parse error if any;
  \<^item> \<open>template_Execute\<close>: \<^verbatim>\<open>tmpl.Execute\<close> of a parsed template, given the two registered
    functions and the root data;
  \<^item> \<open>json_Marshal\<close>: \<^verbatim>\<open>json.Marshal\<close>;
  \<^item> \<open>json_Unmarshal\<close>: \<^verbatim>\<open>json.Unmarshal\<close> into a typed target: from the bytes and the
    target's content, the error if any and the target's new content;
  \<^item> \<open>json_Unmarshal_map\<close>: \<^verbatim>\<open>json.Unmarshal\<close> into a nil \<^verbatim>\<open>map[string]interface{}\<close>
    variable: the error if any, and the variable afterwards (\<open>None\<close> when still nil);
  \<^item> \<open>http_NewRequest\<close>: \<^verbatim>\<open>http.NewRequest\<close> of a method, a URL and a body;
  \<^item> \<open>CanonicalHeaderKey\<close>: the key under which \<^verbatim>\<open>Header.Set\<close> stores a value;
  \<^item> \<open>Sprintf_v\<close>: \<^verbatim>\<open>fmt.Sprintf("%v", v)\<close>.

  Modelled from the spec: \<^verbatim>\<open>StringBody.ContentType\<close> is declared elsewhere in the package
  and the specification leaves its value to the caller context, so
  \<open>StringBody_ContentType\<close> is a parameter too.
\<close>

record golib =
  template_Parse :: "string \<Rightarrow> error option"
  template_Execute ::
    "(string list \<Rightarrow> error + gval) \<Rightarrow> (string list \<Rightarrow> error + gval) \<Rightarrow> Values \<Rightarrow> string
       \<Rightarrow> error + string"
  json_Marshal :: "gval \<Rightarrow> error + string"
  json_Unmarshal :: "string \<Rightarrow> gval \<Rightarrow> error option \<times> gval"
  json_Unmarshal_map :: "string \<Rightarrow> error option \<times> (string \<Rightarrow> gval option) option"
  http_NewRequest :: "string \<Rightarrow> string \<Rightarrow> string \<Rightarrow> error + request"
  CanonicalHeaderKey :: "string \<Rightarrow> string"
  Sprintf_v :: "gval \<Rightarrow> string"
  StringBody_ContentType :: string

section \<open>The checker \<^verbatim>\<open>ExpectJSONBranch\<close>\<close>

text \<open>The type assertion \<^verbatim>\<open>v.(map[string]interface{})\<close>: the map, when \<open>v\<close> has that type.\<close>

fun as_object :: "gval \<Rightarrow> (string \<Rightarrow> gval option) option" where
  "as_object (VMap m) = Some m"
| "as_object VNilMap = Some Map.empty"
| "as_object _ = None"

text \<open>
  The loop over \<^verbatim>\<open>nodes\<close>: \<open>i\<close> is the index, the list holds \<open>nodes\<close> from index \<open>i\<close> on and
  \<open>m\<close> is the map cursor. The test \<^verbatim>\<open>i == len(nodes)-2\<close> is on Go's signed integers.
\<close>

fun branch_loop ::
  "(gval \<Rightarrow> string) \<Rightarrow> string list \<Rightarrow> nat \<Rightarrow> string list \<Rightarrow> (string \<Rightarrow> gval option)
     \<Rightarrow> error option" where
  "branch_loop sp nodes i [] m = None"
| "branch_loop sp nodes i (n # ns) m =
     (case m n of
        None \<Rightarrow> Some (MissingNode n)
      | Some v \<Rightarrow>
          (case as_object v of
             Some child \<Rightarrow> branch_loop sp nodes (i + 1) ns child
           | None \<Rightarrow>
               if int i = int (length nodes) - 2
               then (let lastNode = nodes ! (i + 1) in
                     if sp v \<noteq> lastNode then Some (WrongValue lastNode v) else None)
               else branch_loop sp nodes (i + 1) ns m))"

text \<open>
  The checker: \<open>m\<close> starts as the empty map, so a decode that leaves the variable
  untouched leaves it empty.
\<close>

definition ExpectJSONBranch :: "golib \<Rightarrow> string list \<Rightarrow> Checker" where
  "ExpectJSONBranch lib nodes r body respObject =
     (case json_Unmarshal_map lib body of
        (Some err, dec) \<Rightarrow> Some err
      | (None, dec) \<Rightarrow>
          branch_loop (Sprintf_v lib) nodes 0 nodes
            (case dec of None \<Rightarrow> Map.empty | Some m \<Rightarrow> m))"

text \<open>Words of the specification: walking a JSON object through nested objects along a
  key sequence; the result is the object reached, if every key leads to an object.\<close>

fun descend :: "(string \<Rightarrow> gval option) \<Rightarrow> string list \<Rightarrow> (string \<Rightarrow> gval option) option" where
  "descend m [] = Some m"
| "descend m (k # ks) =
     (case m k of
        None \<Rightarrow> None
      | Some v \<Rightarrow> (case as_object v of None \<Rightarrow> None | Some child \<Rightarrow> descend child ks))"

section \<open>Bodies, calls and the tester\<close>

text \<open>
  Modelled from the spec: the \<^verbatim>\<open>Body\<close> interface and its implementations are declared
  elsewhere in the package. \<open>NoopBody\<close> gives an empty stream and an empty content type;
  \<open>StringBody\<close> renders the template string it holds and gives the result as the stream.
  \<open>CustomBody\<close> stands for any other implementation: it renders some template strings
  in order through the render function, builds the stream from the results or fails,
  and declares a content type.
\<close>

datatype body =
    StringBody string
  | NoopBody
  | CustomBody "string list" "string list \<Rightarrow> error + string" string

text \<open>The \<^verbatim>\<open>interface{}\<close> argument of \<^verbatim>\<open>AddCall\<close>: a value whose type implements \<^verbatim>\<open>Body\<close>,
  or any other Go value.\<close>

datatype arg = ABody body | AVal gval

text \<open>
  Modelled from the spec: the \<^verbatim>\<open>Call\<close> struct is declared elsewhere in the package; its
  fields are those \<^verbatim>\<open>AddCall\<close> and \<^verbatim>\<open>Run\<close> use. \<open>headers\<close> lists the entries of the map in the
  order the \<^verbatim>\<open>range\<close> loop visits them (a nil map has none). \<open>respObject\<close> is the address of
  the decode target, \<open>None\<close> for nil.
\<close>

record call =
  Name :: string
  Method :: string
  QueryStr :: string
  Body :: body
  headers :: "(string \<times> string) list"
  checkers :: "Checker list"
  respObject :: "nat option"

text \<open>
  What \<^verbatim>\<open>Run\<close> does, in order: a failure recorded on \<^verbatim>\<open>testing.T\<close>, a request given to the
  handler, the reading of a call's response body, the write of a call's entry in the
  value store, the start of one checker of a call.
\<close>

datatype event =
    Report error
  | Served request
  | BodyRead string
  | Stored string gval
  | CheckerRun string

text \<open>
  The \<^verbatim>\<open>Tester\<close>: \<open>handler\<close> is the field \<^verbatim>\<open>r\<close>, a function of the requests served before
  and the current one; \<open>tvalues\<close> is the field \<^verbatim>\<open>values\<close>; \<open>events\<close> stands for the field
  \<^verbatim>\<open>t\<close> and also records the other steps; \<open>heap\<close> holds the decode targets by address.
\<close>

record tester =
  handler :: "request list \<Rightarrow> request \<Rightarrow> response"
  Calls :: "call list"
  tvalues :: Values
  heap :: "nat \<Rightarrow> gval"
  events :: "event list"

fun served :: "event list \<Rightarrow> request list" where
  "served [] = []"
| "served (Served rq # es) = rq # served es"
| "served (e # es) = served es"

text \<open>\<^verbatim>\<open>NewTester\<close>: the value store starts empty. The second argument is the memory that
  holds the decode targets of the calls.\<close>

definition NewTester :: "(request list \<Rightarrow> request \<Rightarrow> response) \<Rightarrow> (nat \<Rightarrow> gval) \<Rightarrow> call list \<Rightarrow> tester" where
  "NewTester r h cs = \<lparr>handler = r, Calls = cs, tvalues = Map.empty, heap = h, events = []\<rparr>"

definition AddCall :: "tester \<Rightarrow> string \<Rightarrow> string \<Rightarrow> string \<Rightarrow> arg \<Rightarrow> call \<times> tester" where
  "AddCall t name method querystr b =
     (let bodyInterface =
            (case b of
               ABody x \<Rightarrow> x
             | AVal (VStr val) \<Rightarrow> if val \<noteq> [] then StringBody val else NoopBody
             | AVal _ \<Rightarrow> NoopBody);
          c = \<lparr>Name = name, Method = method, QueryStr = querystr, Body = bodyInterface,
               headers = [], checkers = [], respObject = None\<rparr>
      in (c, t\<lparr>Calls := Calls t @ [c]\<rparr>))"

section \<open>Rendering\<close>

definition Apply :: "golib \<Rightarrow> Values \<Rightarrow> string \<Rightarrow> error + string" where
  "Apply lib v templateStr =
     (case template_Parse lib templateStr of
        Some err \<Rightarrow> Inl err
      | None \<Rightarrow>
          template_Execute lib (fieldTmpl v) (jsonFieldTmpl (json_Marshal lib) v) v templateStr)"

text \<open>\<^verbatim>\<open>t.t.Error(err)\<close>: the failure is recorded and the caller goes on.\<close>

definition report :: "error \<Rightarrow> tester \<Rightarrow> tester" where
  "report err t = t\<lparr>events := events t @ [Report err]\<rparr>"

definition applyTemplate :: "golib \<Rightarrow> tester \<Rightarrow> string \<Rightarrow> string \<times> tester" where
  "applyTemplate lib t s =
     (case Apply lib (tvalues t) s of
        Inl err \<Rightarrow> ([], report err t)
      | Inr b \<Rightarrow> (b, t))"

fun render_all :: "golib \<Rightarrow> tester \<Rightarrow> string list \<Rightarrow> string list \<times> tester" where
  "render_all lib t [] = ([], t)"
| "render_all lib t (s # ss) =
     (let (x, t1) = applyTemplate lib t s;
          (xs, t2) = render_all lib t1 ss
      in (x # xs, t2))"

fun GetBody :: "golib \<Rightarrow> body \<Rightarrow> tester \<Rightarrow> (error + string) \<times> tester" where
  "GetBody lib NoopBody t = (Inr [], t)"
| "GetBody lib (StringBody s) t = (let (x, t1) = applyTemplate lib t s in (Inr x, t1))"
| "GetBody lib (CustomBody ss build ct) t =
     (let (xs, t1) = render_all lib t ss in (build xs, t1))"

fun ContentType :: "golib \<Rightarrow> body \<Rightarrow> string" where
  "ContentType lib NoopBody = []"
| "ContentType lib (StringBody s) = StringBody_ContentType lib"
| "ContentType lib (CustomBody ss build ct) = ct"

definition Header_Set :: "golib \<Rightarrow> request \<Rightarrow> string \<Rightarrow> string \<Rightarrow> request" where
  "Header_Set lib req k v = req\<lparr>rq_Header := (rq_Header req)(CanonicalHeaderKey lib k \<mapsto> v)\<rparr>"

section \<open>\<^verbatim>\<open>Tester.Run\<close>\<close>

text \<open>
  The loop over \<^verbatim>\<open>c.headers\<close>: key and value are both rendered, the key first.
\<close>

fun set_headers :: "golib \<Rightarrow> (string \<times> string) list \<Rightarrow> request \<Rightarrow> tester \<Rightarrow> request \<times> tester" where
  "set_headers lib [] req t = (req, t)"
| "set_headers lib ((k, v) # hs) req t =
     (let (k', t1) = applyTemplate lib t k;
          (v', t2) = applyTemplate lib t1 v
      in set_headers lib hs (Header_Set lib req k' v') t2)"

text \<open>
  The first part of the loop body, up to the request ready to be served: \<open>None\<close> when
  the body or the request cannot be made; the error is then reported and the loop
  continues with the next call.
\<close>

definition build_request :: "golib \<Rightarrow> call \<Rightarrow> tester \<Rightarrow> request option \<times> tester" where
  "build_request lib c t =
     (case GetBody lib (Body c) t of
        (Inl err, t1) \<Rightarrow> (None, report err t1)
      | (Inr b, t1) \<Rightarrow>
          (let (url, t2) = applyTemplate lib t1 (QueryStr c) in
           case http_NewRequest lib (Method c) url b of
             Inl err \<Rightarrow> (None, report err t2)
           | Inr req \<Rightarrow>
               (let contentType = ContentType lib (Body c);
                    req1 = (if contentType \<noteq> []
                            then Header_Set lib req ''content-type'' (ContentType lib (Body c))
                            else req);
                    (req2, t3) = set_headers lib (headers c) req1 t2
                in (Some req2, t3))))"

text \<open>\<^verbatim>\<open>t.r.ServeHTTP(w, req)\<close> and \<^verbatim>\<open>w.Result()\<close>.\<close>

definition serve :: "request \<Rightarrow> tester \<Rightarrow> response \<times> tester" where
  "serve req t = (handler t (served (events t)) req, t\<lparr>events := events t @ [Served req]\<rparr>)"

text \<open>\<^verbatim>\<open>json.Unmarshal(rb, c.respObject)\<close> when a decode target is registered.\<close>

definition typed_decode :: "golib \<Rightarrow> call \<Rightarrow> string \<Rightarrow> tester \<Rightarrow> error option \<times> tester" where
  "typed_decode lib c rb t =
     (case respObject c of
        None \<Rightarrow> (None, t)
      | Some a \<Rightarrow>
          (let (err, x) = json_Unmarshal lib rb (heap t a)
           in (err, t\<lparr>heap := (heap t)(a := x)\<rparr>)))"

text \<open>The value of the variable \<^verbatim>\<open>retJson\<close>, of type \<^verbatim>\<open>map[string]interface{}\<close>.\<close>

fun of_map :: "(string \<Rightarrow> gval option) option \<Rightarrow> gval" where
  "of_map None = VNilMap"
| "of_map (Some m) = VMap m"

text \<open>
  The part of the loop body that reads the response: the result is \<open>None\<close> when the typed
  decode fails (the loop continues with the next call), and the response body as a
  string otherwise (empty when the response has no body).
\<close>

definition capture :: "golib \<Rightarrow> call \<Rightarrow> response \<Rightarrow> tester \<Rightarrow> string option \<times> tester" where
  "capture lib c resp t =
     (case resp_Body resp of
        None \<Rightarrow> (Some [], t)
      | Some (rb, rerr) \<Rightarrow>
          (let t1 = t\<lparr>events := events t @ [BodyRead (Name c)]\<rparr>;
               t2 = (case rerr of Some err \<Rightarrow> report err t1 | None \<Rightarrow> t1);
               (derr, t3) = typed_decode lib c rb t2
           in case derr of
                Some err \<Rightarrow> (None, report err t3)
              | None \<Rightarrow>
                  (let retJson = of_map (snd (json_Unmarshal_map lib rb))
                   in (Some rb,
                       t3\<lparr>tvalues := (tvalues t3)(Name c \<mapsto> retJson),
                          events := events t3 @ [Stored (Name c) retJson]\<rparr>))))"

fun run_checkers :: "call \<Rightarrow> Checker list \<Rightarrow> response \<Rightarrow> string \<Rightarrow> tester \<Rightarrow> tester" where
  "run_checkers c [] resp respBody t = t"
| "run_checkers c (checker # cks) resp respBody t =
     (let t1 = t\<lparr>events := events t @ [CheckerRun (Name c)]\<rparr>;
          t2 = (case checker resp respBody (map_option (heap t1) (respObject c)) of
                  Some err \<Rightarrow> report (Named (Name c) err) t1
                | None \<Rightarrow> t1)
      in run_checkers c cks resp respBody t2)"

text \<open>One turn of the loop of \<^verbatim>\<open>Run\<close>.\<close>

definition run_call :: "golib \<Rightarrow> call \<Rightarrow> tester \<Rightarrow> tester" where
  "run_call lib c t =
     (case build_request lib c t of
        (None, t1) \<Rightarrow> t1
      | (Some req, t1) \<Rightarrow>
          (let (resp, t2) = serve req t1 in
           case capture lib c resp t2 of
             (None, t3) \<Rightarrow> t3
           | (Some respBody, t3) \<Rightarrow> run_checkers c (checkers c) resp respBody t3))"

fun run_loop :: "golib \<Rightarrow> call list \<Rightarrow> tester \<Rightarrow> tester" where
  "run_loop lib [] t = t"
| "run_loop lib (c # cs) t = run_loop lib cs (run_call lib c t)"

definition Run :: "golib \<Rightarrow> tester \<Rightarrow> tester" where
  "Run lib t = run_loop lib (Calls t) t"

text \<open>
  Words of the specification. \<open>response_body\<close> is the body of the response a call gets
  when it runs from a given state, if it gets one. \<open>captures\<close> says that the call gets
  a response with a body and that its typed decode, if a target is registered, does not
  fail. \<open>new_events\<close> are the events a run adds.
\<close>

definition response_body :: "golib \<Rightarrow> call \<Rightarrow> tester \<Rightarrow> (string \<times> error option) option" where
  "response_body lib c t =
     (case build_request lib c t of
        (None, t1) \<Rightarrow> None
      | (Some req, t1) \<Rightarrow> resp_Body (fst (serve req t1)))"

definition captures :: "golib \<Rightarrow> call \<Rightarrow> tester \<Rightarrow> bool" where
  "captures lib c t =
     (case build_request lib c t of
        (None, t1) \<Rightarrow> False
      | (Some req, t1) \<Rightarrow>
          (case resp_Body (fst (serve req t1)) of
             None \<Rightarrow> False
           | Some (rb, rerr) \<Rightarrow> fst (typed_decode lib c rb t1) = None))"

definition new_events :: "tester \<Rightarrow> tester \<Rightarrow> event list" where
  "new_events t t' = drop (length (events t)) (events t')"

section \<open>A small library instance and scenarios for closed examples\<close>

text \<open>
  The examples below run the model on concrete inputs. They use one instance of the
  library record that agrees with the Go library on the inputs of the examples and is
  arbitrary elsewhere: a template with no action renders to itself and \<^verbatim>\<open>{{\<close> does not
  parse; the decoder into a generic map knows the JSON texts listed and leaves the map
  nil on \<^verbatim>\<open>null\<close> and on any other text, which it refuses; the typed decode refuses the
  body \<^verbatim>\<open>oops\<close>; the marshaller knows the object \<^verbatim>\<open>{"x":1}\<close>; \<^verbatim>\<open>%v\<close> prints a string as
  it is and a one-digit number as its digit; \<^verbatim>\<open>http.NewRequest\<close> accepts any URL, the
  empty one included, and refuses the method \<^verbatim>\<open>BAD METHOD\<close>.
\<close>

definition example_decode :: "string \<Rightarrow> error option \<times> (string \<Rightarrow> gval option) option" where
  "example_decode b =
     (if b = ''{\"a\":{\"b\":{\"c\":5}}}''
      then (None, Some [''a'' \<mapsto> VMap [''b'' \<mapsto> VMap [''c'' \<mapsto> VNum 5]]])
      else if b = ''{\"a\":{\"b\":\"x\"}}'' then (None, Some [''a'' \<mapsto> VMap [''b'' \<mapsto> VStr ''x'']])
      else if b = ''{\"a\":1,\"b\":2}'' then (None, Some [''a'' \<mapsto> VNum 1, ''b'' \<mapsto> VNum 2])
      else if b = ''{\"id\":7}'' then (None, Some [''id'' \<mapsto> VNum 7])
      else if b = ''null'' then (None, None)
      else (Some (External ''invalid JSON object''), None))"

definition example_marshal :: "gval \<Rightarrow> error + string" where
  "example_marshal x =
     (case x of
        VMap m \<Rightarrow>
          (case m ''x'' of
             Some (VNum n) \<Rightarrow> if n = 1 then Inr ''{\"x\":1}'' else Inl (External ''unsupported'')
           | _ \<Rightarrow> Inl (External ''unsupported''))
      | _ \<Rightarrow> Inl (External ''unsupported''))"

definition example_sprint :: "gval \<Rightarrow> string" where
  "example_sprint x =
     (case x of
        VStr s \<Rightarrow> s
      | VNum n \<Rightarrow> if 0 \<le> n \<and> n < 10 then [''0123456789'' ! nat n] else ''?''
      | _ \<Rightarrow> ''?'')"

definition example_lib :: golib where
  "example_lib =
     \<lparr>template_Parse = (\<lambda>s. if s = ''{{'' then Some (External ''unclosed action'') else None),
      template_Execute = (\<lambda>fieldf jsonf v s. Inr s),
      json_Marshal = example_marshal,
      json_Unmarshal = (\<lambda>b x. if b = ''oops'' then (Some (External ''invalid character''), x)
                                else (None, VStr b)),
      json_Unmarshal_map = example_decode,
      http_NewRequest = (\<lambda>m u b. if m = ''BAD METHOD'' then Inl (External ''invalid method'')
                                  else Inr \<lparr>rq_Method = m, rq_URL = u, rq_Body = b,
                                            rq_Header = Map.empty\<rparr>),
      CanonicalHeaderKey = (\<lambda>k. k),
      Sprintf_v = example_sprint,
      StringBody_ContentType = []\<rparr>"

definition example_response :: response where
  "example_response = \<lparr>StatusCode = 200, resp_Header = Map.empty, resp_Body = None\<rparr>"

text \<open>A handler that answers every request with status 200 and the given body.\<close>

definition answer :: "string \<Rightarrow> request list \<Rightarrow> request \<Rightarrow> response" where
  "answer b before req = \<lparr>StatusCode = 200, resp_Header = Map.empty, resp_Body = Some (b, None)\<rparr>"

definition example_call :: "string \<Rightarrow> string \<Rightarrow> string \<Rightarrow> call" where
  "example_call name method querystr =
     \<lparr>Name = name, Method = method, QueryStr = querystr, Body = NoopBody, headers = [],
      checkers = [], respObject = None\<rparr>"

text \<open>
  Scenarios: two calls that both succeed; one call with a decode target whose typed
  decode fails; one call whose query string does not parse as a template; a call that
  cannot be built followed by one that can; one call whose response is not a JSON object;
  one call whose body cannot be made and whose query string does not parse either.
\<close>

definition two_calls :: tester where
  "two_calls =
     NewTester (answer ''{\"id\":7}'') (\<lambda>a. VNil)
       [example_call ''create'' ''POST'' ''/items'', example_call ''fetch'' ''GET'' ''/items/7'']"

definition typed_fail :: tester where
  "typed_fail =
     NewTester (answer ''oops'') (\<lambda>a. VNil)
       [(example_call ''c'' ''GET'' ''/'')\<lparr>respObject := Some 0\<rparr>]"

definition bad_query :: tester where
  "bad_query =
     NewTester (answer ''{\"id\":7}'') (\<lambda>a. VNil) [example_call ''c'' ''GET'' ''{{'']"

definition bad_then_good :: tester where
  "bad_then_good =
     NewTester (answer ''{\"id\":7}'') (\<lambda>a. VNil)
       [example_call ''first'' ''BAD METHOD'' ''/'', example_call ''second'' ''GET'' ''/'']"


definition bad_body :: tester where
  "bad_body =
     NewTester (answer ''{\"id\":7}'') (\<lambda>a. VNil)
       [(example_call ''c'' ''GET'' ''{{'')
          \<lparr>Body := CustomBody [] (\<lambda>xs. Inl (External ''no body'')) []\<rparr>]"

section \<open>Reading the event trace\<close>

text \<open>
  Events that carry no call name: reports and served requests.
\<close>

fun silent :: "event \<Rightarrow> bool" where
  "silent (Report err) = True"
| "silent (Served rq) = True"
| "silent e = False"

text \<open>Every event of the list that carries a call name carries the name \<open>n\<close>.\<close>

fun about :: "string \<Rightarrow> event \<Rightarrow> bool" where
  "about n (BodyRead m) = (m = n)"
| "about n (Stored m v) = (m = n)"
| "about n (CheckerRun m) = (m = n)"
| "about n e = True"

text \<open>
  A step from one tester state to a later one that changes neither the value store nor
  the decode targets, and adds only silent events.
\<close>

definition quiet :: "tester \<Rightarrow> tester \<Rightarrow> bool" where
  "quiet t t' \<longleftrightarrow>
     handler t' = handler t \<and> Calls t' = Calls t \<and> tvalues t' = tvalues t \<and> heap t' = heap t \<and>
     (\<exists>es. events t' = events t @ es \<and> list_all silent es)"

text \<open>
  The order of the events of one call name \<open>n\<close>, read by a scan with three flags: the
  body of \<open>n\<close> has been read, a checker of \<open>n\<close> has started, the entry of \<open>n\<close> has been
  written. A write of the entry of \<open>n\<close> is allowed only after the read, before any
  checker and when no write has happened.
\<close>

fun step :: "string \<Rightarrow> bool \<times> bool \<times> bool \<Rightarrow> event \<Rightarrow> bool \<times> bool \<times> bool" where
  "step n (r, c, w) (BodyRead m) = (if m = n then (True, c, w) else (r, c, w))"
| "step n (r, c, w) (CheckerRun m) = (if m = n then (r, True, w) else (r, c, w))"
| "step n (r, c, w) (Stored m v) = (if m = n then (r, c, True) else (r, c, w))"
| "step n (r, c, w) e = (r, c, w)"

fun allowed :: "string \<Rightarrow> bool \<times> bool \<times> bool \<Rightarrow> event \<Rightarrow> bool" where
  "allowed n (r, c, w) (Stored m v) = (if m = n then r \<and> \<not> c \<and> \<not> w else True)"
| "allowed n (r, c, w) e = True"

fun trace_ok :: "string \<Rightarrow> bool \<times> bool \<times> bool \<Rightarrow> event list \<Rightarrow> bool" where
  "trace_ok n s [] = True"
| "trace_ok n s (e # es) = (allowed n s e \<and> trace_ok n (step n s e) es)"

section \<open>Properties of \<^verbatim>\<open>field\<close>\<close>

lemma field_loop_append:
  "field_loop i (ks @ ks') = (case field_loop i ks of Inl e \<Rightarrow> Inl e | Inr j \<Rightarrow> field_loop j ks')"
  by (induction ks arbitrary: i) (auto split: gval.splits)

lemma field_loop_not_map_like:
  "\<not> map_like i \<Longrightarrow> field_loop i (k # ks) = Inl (CannotDereference i)"
  by (cases i) auto

lemma field_loop_absent:
  "map_like i \<Longrightarrow> absent_key i k \<Longrightarrow> field_loop i (k # ks) = field_loop (VStr no_value) ks"
  by (cases i) auto

lemma field_loop_error_prefix:
  "field_loop i key = Inl e \<Longrightarrow>
     \<exists>ks k rest j. key = ks @ k # rest \<and> field_loop i ks = Inr j \<and> \<not> map_like j"
proof (induction key arbitrary: i)
  case Nil
  then show ?case by simp
next
  case (Cons k key)
  show ?case
  proof (cases "map_like i")
    case False
    then have "k # key = [] @ k # key \<and> field_loop i [] = Inr i \<and> \<not> map_like i" by simp
    then show ?thesis by blast
  next
    case True
    then obtain i' where step: "\<And>xs. field_loop i (k # xs) = field_loop i' xs"
      by (cases i) auto
    with Cons.prems have "field_loop i' key = Inl e" by simp
    from Cons.IH[OF this] obtain ks k' rest j where
      "key = ks @ k' # rest" "field_loop i' ks = Inr j" "\<not> map_like j" by blast
    then have "k # key = (k # ks) @ k' # rest \<and> field_loop i (k # ks) = Inr j \<and> \<not> map_like j"
      using step by simp
    then show ?thesis by blast
  qed
qed

text \<open>
  Claim C5. Evaluating \<^verbatim>\<open>field("a","b")\<close> against a store where \<open>a\<close> maps to the object
  \<^verbatim>\<open>{"b": "x"}\<close> yields \<^verbatim>\<open>"x"\<close>; against a store where \<open>a\<close> maps to the empty object it
  yields the literal string \<^verbatim>\<open><no value>\<close>; against a store where \<open>a\<close> maps to a value that
  is not a map, asking for a further key returns an error.
\<close>

theorem field_examples:
  "(\<forall>v. v ''a'' = Some (VMap [''b'' \<mapsto> VStr ''x'']) \<longrightarrow>
        fieldTmpl v [''a'', ''b''] = Inr (VStr ''x''))
   \<and> (\<forall>v. v ''a'' = Some (VMap Map.empty) \<longrightarrow>
        fieldTmpl v [''a'', ''b''] = Inr (VStr ''<no value>''))
   \<and> (\<forall>v x k. v ''a'' = Some x \<and> \<not> map_like x \<longrightarrow>
        fieldTmpl v [''a'', k] = Inl (CannotDereference x))"
  by (auto simp: fieldTmpl_def no_value_def split: gval.splits)

text \<open>The three cases of claim C5 on concrete stores.\<close>

theorem field_examples_witness:
  "fieldTmpl [''a'' \<mapsto> VMap [''b'' \<mapsto> VStr ''x'']] [''a'', ''b''] = Inr (VStr ''x'')
   \<and> fieldTmpl [''a'' \<mapsto> VMap Map.empty] [''a'', ''b''] = Inr (VStr ''<no value>'')
   \<and> \<not> map_like (VStr ''s'')
   \<and> fieldTmpl [''a'' \<mapsto> VStr ''s''] [''a'', ''b''] = Inl (CannotDereference (VStr ''s''))"
  using field_examples by simp

text \<open>
  Claim C3 says that \<^verbatim>\<open>field\<close> returns \<^verbatim>\<open><no value>\<close> and no error whenever a key, also a
  non-final one, is absent on a map-like node. On the empty store the key \<open>a\<close> of the path
  \<open>a, b\<close> is absent on a map-like node and is not final, and \<^verbatim>\<open>field\<close> returns an error: the
  loop puts the placeholder string in the cursor and the next key cannot dereference it.
\<close>

theorem field_absent_intermediate_counterexample:
  "absent_key (VMap Map.empty) ''a''
   \<and> fieldTmpl Map.empty [''a'', ''b''] = Inl (CannotDereference (VStr ''<no value>''))"
  by (simp add: fieldTmpl_def no_value_def)

text \<open>
  Claim C3, amended. When the last key of the path is absent on a map-like node,
  \<^verbatim>\<open>field\<close> returns the literal string \<^verbatim>\<open><no value>\<close> and no error. When a key that is not
  the last is absent on a map-like node, \<^verbatim>\<open>field\<close> returns the error that the placeholder
  string cannot be dereferenced. \<^verbatim>\<open>field\<close> returns an error exactly when some key of the
  path is applied to a value that is not map-like, that value being what the keys before
  it resolve to.
\<close>

theorem field_absent_and_errors:
  "(fieldTmpl v ks = Inr i \<and> map_like i \<and> absent_key i k \<longrightarrow>
      fieldTmpl v (ks @ [k]) = Inr (VStr ''<no value>''))
   \<and> (fieldTmpl v ks = Inr i \<and> map_like i \<and> absent_key i k \<and> rest \<noteq> [] \<longrightarrow>
      fieldTmpl v (ks @ k # rest) = Inl (CannotDereference (VStr ''<no value>'')))
   \<and> ((\<exists>e. fieldTmpl v key = Inl e) \<longleftrightarrow>
      (\<exists>ks k rest j. key = ks @ k # rest \<and> fieldTmpl v ks = Inr j \<and> \<not> map_like j))"
proof (intro conjI impI)
  assume "fieldTmpl v ks = Inr i \<and> map_like i \<and> absent_key i k"
  then show "fieldTmpl v (ks @ [k]) = Inr (VStr ''<no value>'')"
    by (simp add: fieldTmpl_def field_loop_append field_loop_absent field_loop_not_map_like
          no_value_def del: field_loop.simps(2))
next
  assume a: "fieldTmpl v ks = Inr i \<and> map_like i \<and> absent_key i k \<and> rest \<noteq> []"
  then obtain r rs where "rest = r # rs" by (cases rest) auto
  with a show "fieldTmpl v (ks @ k # rest) = Inl (CannotDereference (VStr ''<no value>''))"
    by (simp add: fieldTmpl_def field_loop_append field_loop_absent field_loop_not_map_like
          no_value_def del: field_loop.simps(2))
next
  show "(\<exists>e. fieldTmpl v key = Inl e) \<longleftrightarrow>
      (\<exists>ks k rest j. key = ks @ k # rest \<and> fieldTmpl v ks = Inr j \<and> \<not> map_like j)"
  proof
    assume "\<exists>e. fieldTmpl v key = Inl e"
    then show "\<exists>ks k rest j. key = ks @ k # rest \<and> fieldTmpl v ks = Inr j \<and> \<not> map_like j"
      unfolding fieldTmpl_def using field_loop_error_prefix by blast
  next
    assume "\<exists>ks k rest j. key = ks @ k # rest \<and> fieldTmpl v ks = Inr j \<and> \<not> map_like j"
    then show "\<exists>e. fieldTmpl v key = Inl e"
      by (auto simp: fieldTmpl_def field_loop_append field_loop_not_map_like
          simp del: field_loop.simps(2))
  qed
qed

text \<open>The amended claim C3 on the store where \<open>a\<close> maps to the empty object.\<close>

theorem field_absent_and_errors_witness:
  "fieldTmpl [''a'' \<mapsto> VMap Map.empty] [''a''] = Inr (VMap Map.empty)
   \<and> map_like (VMap Map.empty) \<and> absent_key (VMap Map.empty) ''b''
   \<and> fieldTmpl [''a'' \<mapsto> VMap Map.empty] [''a'', ''b''] = Inr (VStr ''<no value>'')
   \<and> fieldTmpl [''a'' \<mapsto> VMap Map.empty] [''a'', ''b'', ''c''] =
         Inl (CannotDereference (VStr ''<no value>''))"
  using field_absent_and_errors [of "[''a'' \<mapsto> VMap Map.empty]" "[''a'']" "VMap Map.empty" "''b''" "[''c'']"]
  by (simp add: fieldTmpl_def)

section \<open>Properties of \<^verbatim>\<open>json\<close>\<close>

text \<open>
  Claim C7. The template function \<^verbatim>\<open>json\<close> walks the key path as \<^verbatim>\<open>field\<close> does and then
  serializes the value found to its JSON text: it returns an error exactly when the walk
  of \<^verbatim>\<open>field\<close> fails or the serialization fails, with that same error, and otherwise the
  text that \<^verbatim>\<open>json.Marshal\<close> gives for the value \<^verbatim>\<open>field\<close> returns. In particular
  \<^verbatim>\<open>json("a")\<close>, where \<open>a\<close> maps to the object \<^verbatim>\<open>{"x":1}\<close> whose JSON text is \<^verbatim>\<open>{"x":1}\<close>,
  yields that text.
\<close>

theorem json_is_field_then_marshal:
  "((\<exists>e. jsonFieldTmpl marshal v key = Inl e) \<longleftrightarrow>
      ((\<exists>e. fieldTmpl v key = Inl e) \<or> (\<exists>i e. fieldTmpl v key = Inr i \<and> marshal i = Inl e)))
   \<and> (\<forall>e. fieldTmpl v key = Inl e \<longrightarrow> jsonFieldTmpl marshal v key = Inl e)
   \<and> (\<forall>i e. fieldTmpl v key = Inr i \<and> marshal i = Inl e \<longrightarrow> jsonFieldTmpl marshal v key = Inl e)
   \<and> (\<forall>i s. fieldTmpl v key = Inr i \<and> marshal i = Inr s \<longrightarrow>
         jsonFieldTmpl marshal v key = Inr (VStr s))
   \<and> (v ''a'' = Some (VMap [''x'' \<mapsto> VNum 1]) \<and>
        marshal (VMap [''x'' \<mapsto> VNum 1]) = Inr ''{\"x\":1}'' \<longrightarrow>
         jsonFieldTmpl marshal v [''a''] = Inr (VStr ''{\"x\":1}''))"
  by (auto simp: jsonFieldTmpl_def fieldTmpl_def split: sum.splits)

text \<open>Claim C7 on concrete stores: the text of an object, a serialization failure and a
  walk failure.\<close>

theorem json_is_field_then_marshal_witness:
  "jsonFieldTmpl example_marshal [''a'' \<mapsto> VMap [''x'' \<mapsto> VNum 1]] [''a''] = Inr (VStr ''{\"x\":1}'')
   \<and> jsonFieldTmpl example_marshal [''a'' \<mapsto> VNum 1] [''a''] = Inl (External ''unsupported'')
   \<and> jsonFieldTmpl example_marshal [''a'' \<mapsto> VNum 1] [''a'', ''b''] = Inl (CannotDereference (VNum 1))"
  using json_is_field_then_marshal [of example_marshal "[''a'' \<mapsto> VMap [''x'' \<mapsto> VNum 1]]" "[''a'']"]
    json_is_field_then_marshal [of example_marshal "[''a'' \<mapsto> VNum 1]" "[''a'']"]
    json_is_field_then_marshal [of example_marshal "[''a'' \<mapsto> VNum 1]" "[''a'', ''b'']"]
  by (simp add: example_marshal_def fieldTmpl_def)

section \<open>Properties of \<^verbatim>\<open>AddCall\<close>\<close>

text \<open>
  Claim C8. The body of the call that \<^verbatim>\<open>AddCall\<close> builds is the argument itself when the
  argument implements \<^verbatim>\<open>Body\<close>, a \<^verbatim>\<open>StringBody\<close> holding the argument when it is a
  non-empty string, and a \<^verbatim>\<open>NoopBody\<close> in every other case (the empty string or any other
  value). The call is appended to the calls of the tester.
\<close>

theorem AddCall_body:
  "(\<forall>x. b = ABody x \<longrightarrow> Body (fst (AddCall t name method querystr b)) = x)
   \<and> (\<forall>s. b = AVal (VStr s) \<and> s \<noteq> [] \<longrightarrow>
         Body (fst (AddCall t name method querystr b)) = StringBody s)
   \<and> ((\<forall>x. b \<noteq> ABody x) \<and> (\<forall>s. s \<noteq> [] \<longrightarrow> b \<noteq> AVal (VStr s)) \<longrightarrow>
         Body (fst (AddCall t name method querystr b)) = NoopBody)
   \<and> Calls (snd (AddCall t name method querystr b)) = Calls t @ [fst (AddCall t name method querystr b)]"
  by (auto simp: AddCall_def Let_def split: arg.splits gval.splits)

text \<open>Claim C8 on four arguments: a body, a template string, the empty string, nil.\<close>

theorem AddCall_body_witness:
  "Body (fst (AddCall (NewTester (answer []) (\<lambda>a. VNil) []) ''n'' ''GET'' ''/''
            (ABody (CustomBody [] (\<lambda>xs. Inr []) ''text/plain''))))
     = CustomBody [] (\<lambda>xs. Inr []) ''text/plain''
   \<and> Body (fst (AddCall (NewTester (answer []) (\<lambda>a. VNil) []) ''n'' ''GET'' ''/''
            (AVal (VStr ''{{.a}}'')))) = StringBody ''{{.a}}''
   \<and> Body (fst (AddCall (NewTester (answer []) (\<lambda>a. VNil) []) ''n'' ''GET'' ''/''
            (AVal (VStr [])))) = NoopBody
   \<and> Body (fst (AddCall (NewTester (answer []) (\<lambda>a. VNil) []) ''n'' ''GET'' ''/''
            (AVal VNil))) = NoopBody"
  using
    AddCall_body [of "ABody (CustomBody [] (\<lambda>xs. Inr []) ''text/plain'')"
                     "NewTester (answer []) (\<lambda>a. VNil) []" "''n''" "''GET''" "''/''"]
    AddCall_body [of "AVal (VStr ''{{.a}}'')" "NewTester (answer []) (\<lambda>a. VNil) []" "''n''" "''GET''" "''/''"]
    AddCall_body [of "AVal (VStr [])" "NewTester (answer []) (\<lambda>a. VNil) []" "''n''" "''GET''" "''/''"]
    AddCall_body [of "AVal VNil" "NewTester (answer []) (\<lambda>a. VNil) []" "''n''" "''GET''" "''/''"]
  by simp

section \<open>Properties of \<^verbatim>\<open>ExpectJSONBranch\<close>\<close>

lemma branch_loop_descend:
  "descend m pre = Some m' \<Longrightarrow>
     branch_loop sp nodes i (pre @ rest) m = branch_loop sp nodes (i + length pre) rest m'"
  by (induction pre arbitrary: m i) (auto split: option.splits)

lemma branch_loop_errors:
  "ns = drop i nodes \<Longrightarrow> branch_loop sp nodes i ns m = Some e \<Longrightarrow>
     (\<exists>n \<in> set nodes. e = MissingNode n) \<or>
     (\<exists>v. e = WrongValue (last nodes) v \<and> sp v \<noteq> last nodes)"
proof (induction ns arbitrary: i m)
  case Nil
  then show ?case by simp
next
  case (Cons n ns)
  from Cons.prems(1) have lt: "i < length nodes"
    by (metis drop_all linorder_not_less list.distinct(1))
  from Cons.prems(1) lt have n: "n = nodes ! i" and ns: "ns = drop (Suc i) nodes"
    by (metis Cons_nth_drop_Suc list.inject)+
  from n lt have mem: "n \<in> set nodes" by simp
  show ?case
  proof (cases "m n")
    case None
    with Cons.prems(2) mem show ?thesis by auto
  next
    case (Some v)
    show ?thesis
    proof (cases "as_object v")
      case (Some child)
      with \<open>m n = Some v\<close> Cons.prems(2) have "branch_loop sp nodes (Suc i) ns child = Some e" by simp
      from Cons.IH[OF ns this] show ?thesis .
    next
      case None
      show ?thesis
      proof (cases "int i = int (length nodes) - 2")
        case True
        then have "i + 1 = length nodes - 1" by arith
        moreover from lt have "nodes \<noteq> []" by auto
        ultimately have "nodes ! (i + 1) = last nodes"
          by (simp add: last_conv_nth)
        with True None \<open>m n = Some v\<close> Cons.prems(2) show ?thesis
          by (auto simp: Let_def split: if_splits)
      next
        case False
        with None \<open>m n = Some v\<close> Cons.prems(2) have "branch_loop sp nodes (Suc i) ns m = Some e" by simp
        from Cons.IH[OF ns this] show ?thesis .
      qed
    qed
  qed
qed


text \<open>
  Claim C4. \<^verbatim>\<open>ExpectJSONBranch\<close> walks the decoded JSON object along the key sequence.
  It fails when the body does not decode, and whenever the key looked up is missing in the
  map at the current depth, in particular when a key is missing after a walk through
  nested objects. When the walk reaches the end of the path with every key found, it
  passes, whatever the last value is. When the value at the second-to-last key is not an
  object, its string form is compared with the last key and the checker fails exactly on
  a mismatch. It fails in no other way. The path \<open>a, b, c\<close> against
  \<^verbatim>\<open>{"a":{"b":{"c":5}}}\<close> passes, and the path \<open>a, b, y\<close> against \<^verbatim>\<open>{"a":{"b":"x"}}\<close> fails
  with the wrong-value error.
\<close>

theorem ExpectJSONBranch_walk:
  "(\<forall>err dec. json_Unmarshal_map lib body = (Some err, dec) \<longrightarrow>
       ExpectJSONBranch lib nodes r body ro = Some err)
   \<and> (\<forall>sp i n ns m. m n = None \<longrightarrow> branch_loop sp nodes i (n # ns) m = Some (MissingNode n))
   \<and> (\<forall>m pre m' k rest.
        json_Unmarshal_map lib body = (None, Some m) \<and> descend m pre = Some m' \<and> m' k = None \<longrightarrow>
          ExpectJSONBranch lib (pre @ k # rest) r body ro = Some (MissingNode k))
   \<and> (\<forall>m pre m' k v.
        json_Unmarshal_map lib body = (None, Some m) \<and> descend m pre = Some m' \<and> m' k = Some v \<longrightarrow>
          ExpectJSONBranch lib (pre @ [k]) r body ro = None)
   \<and> (\<forall>m pre m' k v l.
        json_Unmarshal_map lib body = (None, Some m) \<and> descend m pre = Some m' \<and> m' k = Some v \<and>
        as_object v = None \<longrightarrow>
          ExpectJSONBranch lib (pre @ [k, l]) r body ro =
            (if Sprintf_v lib v \<noteq> l then Some (WrongValue l v) else None))
   \<and> (\<forall>e. ExpectJSONBranch lib nodes r body ro = Some e \<longrightarrow>
          (\<exists>err dec. json_Unmarshal_map lib body = (Some err, dec) \<and> e = err) \<or>
          (\<exists>n \<in> set nodes. e = MissingNode n) \<or>
          (\<exists>v. e = WrongValue (last nodes) v \<and> Sprintf_v lib v \<noteq> last nodes))
   \<and> (json_Unmarshal_map lib body = (None, Some [''a'' \<mapsto> VMap [''b'' \<mapsto> VMap [''c'' \<mapsto> VNum 5]]]) \<longrightarrow>
          ExpectJSONBranch lib [''a'', ''b'', ''c''] r body ro = None)
   \<and> (json_Unmarshal_map lib body = (None, Some [''a'' \<mapsto> VMap [''b'' \<mapsto> VStr ''x'']]) \<and>
        Sprintf_v lib (VStr ''x'') = ''x'' \<longrightarrow>
          ExpectJSONBranch lib [''a'', ''b'', ''y''] r body ro = Some (WrongValue ''y'' (VStr ''x'')))"
proof (intro conjI allI impI)
  fix err dec assume "json_Unmarshal_map lib body = (Some err, dec)"
  then show "ExpectJSONBranch lib nodes r body ro = Some err"
    by (simp add: ExpectJSONBranch_def)
next
  fix sp i n ns and m :: "string \<Rightarrow> gval option" assume "m n = None"
  then show "branch_loop sp nodes i (n # ns) m = Some (MissingNode n)" by simp
next
  fix m pre m' k rest
  assume "json_Unmarshal_map lib body = (None, Some m) \<and> descend m pre = Some m' \<and> m' k = None"
  then show "ExpectJSONBranch lib (pre @ k # rest) r body ro = Some (MissingNode k)"
    by (simp add: ExpectJSONBranch_def branch_loop_descend)
next
  fix m pre m' k v
  assume "json_Unmarshal_map lib body = (None, Some m) \<and> descend m pre = Some m' \<and> m' k = Some v"
  then show "ExpectJSONBranch lib (pre @ [k]) r body ro = None"
    by (simp add: ExpectJSONBranch_def branch_loop_descend split: option.splits)
next
  fix m pre m' k v l
  assume "json_Unmarshal_map lib body = (None, Some m) \<and> descend m pre = Some m' \<and> m' k = Some v \<and>
        as_object v = None"
  then show "ExpectJSONBranch lib (pre @ [k, l]) r body ro =
            (if Sprintf_v lib v \<noteq> l then Some (WrongValue l v) else None)"
    by (simp add: ExpectJSONBranch_def branch_loop_descend nth_append)
next
  fix e assume e: "ExpectJSONBranch lib nodes r body ro = Some e"
  show "(\<exists>err dec. json_Unmarshal_map lib body = (Some err, dec) \<and> e = err) \<or>
          (\<exists>n \<in> set nodes. e = MissingNode n) \<or>
          (\<exists>v. e = WrongValue (last nodes) v \<and> Sprintf_v lib v \<noteq> last nodes)"
  proof -
    obtain oerr dec where d: "json_Unmarshal_map lib body = (oerr, dec)"
      by (cases "json_Unmarshal_map lib body")
    show ?thesis
    proof (cases oerr)
      case (Some err)
      with d e have "e = err" by (simp add: ExpectJSONBranch_def)
      with d Some show ?thesis by blast
    next
      case None
      with d e obtain m0 where "branch_loop (Sprintf_v lib) nodes 0 nodes m0 = Some e"
        by (simp add: ExpectJSONBranch_def)
      from branch_loop_errors[OF _ this] show ?thesis by simp
    qed
  qed
next
  assume "json_Unmarshal_map lib body = (None, Some [''a'' \<mapsto> VMap [''b'' \<mapsto> VMap [''c'' \<mapsto> VNum 5]]])"
  then show "ExpectJSONBranch lib [''a'', ''b'', ''c''] r body ro = None"
    by (simp add: ExpectJSONBranch_def)
next
  assume "json_Unmarshal_map lib body = (None, Some [''a'' \<mapsto> VMap [''b'' \<mapsto> VStr ''x'']]) \<and>
        Sprintf_v lib (VStr ''x'') = ''x''"
  then show "ExpectJSONBranch lib [''a'', ''b'', ''y''] r body ro = Some (WrongValue ''y'' (VStr ''x''))"
    by (simp add: ExpectJSONBranch_def)
qed

text \<open>Claim C4 on concrete bodies: a pass, a mismatch, a match, a missing key and a body
  that does not decode.\<close>

theorem ExpectJSONBranch_walk_witness:
  "ExpectJSONBranch example_lib [''a'', ''b'', ''c''] example_response ''{\"a\":{\"b\":{\"c\":5}}}'' None = None
   \<and> ExpectJSONBranch example_lib [''a'', ''b'', ''y''] example_response ''{\"a\":{\"b\":\"x\"}}'' None
        = Some (WrongValue ''y'' (VStr ''x''))
   \<and> ExpectJSONBranch example_lib [''a'', ''b'', ''x''] example_response ''{\"a\":{\"b\":\"x\"}}'' None = None
   \<and> ExpectJSONBranch example_lib [''a'', ''z'', ''c''] example_response ''{\"a\":{\"b\":{\"c\":5}}}'' None
        = Some (MissingNode ''z'')
   \<and> ExpectJSONBranch example_lib [''a''] example_response ''not json'' None
        = Some (External ''invalid JSON object'')"
  using
    ExpectJSONBranch_walk [of example_lib "''{\"a\":{\"b\":{\"c\":5}}}''" "[''a'', ''z'', ''c'']" example_response None]
    ExpectJSONBranch_walk [of example_lib "''{\"a\":{\"b\":\"x\"}}''" "[''a'']" example_response None]
    ExpectJSONBranch_walk [of example_lib "''not json''" "[''a'']" example_response None]
  by (simp add: example_lib_def example_decode_def example_sprint_def ExpectJSONBranch_def)

text \<open>
  Claim C10. When the key at position \<open>i\<close> resolves to a value that is not an object and
  \<open>i\<close> is earlier than the second-to-last position of the path, the checker neither
  fails nor stops: the map cursor is not advanced and the next key is looked up in the
  same map, so the checker fails with a missing node if that map does not have the next
  key.
\<close>

theorem ExpectJSONBranch_skips_early_leaf:
  "(\<forall>sp i n ns m v.
      int i < int (length nodes) - 2 \<and> m n = Some v \<and> as_object v = None \<longrightarrow>
        branch_loop sp nodes i (n # ns) m = branch_loop sp nodes (i + 1) ns m)
   \<and> (\<forall>m pre m' n v n' rest.
        json_Unmarshal_map lib body = (None, Some m) \<and> descend m pre = Some m' \<and>
        m' n = Some v \<and> as_object v = None \<and> rest \<noteq> [] \<longrightarrow>
          ExpectJSONBranch lib (pre @ n # n' # rest) r body ro =
            branch_loop (Sprintf_v lib) (pre @ n # n' # rest) (length pre + 1) (n' # rest) m'
          \<and> (m' n' = None \<longrightarrow>
               ExpectJSONBranch lib (pre @ n # n' # rest) r body ro = Some (MissingNode n')))"
proof (intro conjI allI impI)
  fix sp i n ns and m :: "string \<Rightarrow> gval option" and v
  assume "int i < int (length nodes) - 2 \<and> m n = Some v \<and> as_object v = None"
  then show "branch_loop sp nodes i (n # ns) m = branch_loop sp nodes (i + 1) ns m" by simp
next
  fix m pre m' n v and n' :: string and rest :: "string list"
  assume a: "json_Unmarshal_map lib body = (None, Some m) \<and> descend m pre = Some m' \<and>
        m' n = Some v \<and> as_object v = None \<and> rest \<noteq> []"
  then have eq: "ExpectJSONBranch lib (pre @ n # n' # rest) r body ro =
            branch_loop (Sprintf_v lib) (pre @ n # n' # rest) (length pre + 1) (n' # rest) m'"
    by (simp add: ExpectJSONBranch_def branch_loop_descend del: branch_loop.simps(2))
       (simp del: append_Cons)
  then show "ExpectJSONBranch lib (pre @ n # n' # rest) r body ro =
            branch_loop (Sprintf_v lib) (pre @ n # n' # rest) (length pre + 1) (n' # rest) m'" .
  assume "m' n' = None"
  with eq show "ExpectJSONBranch lib (pre @ n # n' # rest) r body ro = Some (MissingNode n')"
    by simp
qed

text \<open>Claim C10 on the body \<^verbatim>\<open>{"a":1,"b":2}\<close>: after the leaf \<open>a\<close> the keys \<open>b\<close>, \<open>c\<close> and
  \<open>a\<close> are looked up at the top level.\<close>

theorem ExpectJSONBranch_skips_early_leaf_witness:
  "ExpectJSONBranch example_lib [''a'', ''b'', ''c'', ''d''] example_response ''{\"a\":1,\"b\":2}'' None
     = Some (MissingNode ''c'')
   \<and> ExpectJSONBranch example_lib [''a'', ''b'', ''a'', ''b''] example_response ''{\"a\":1,\"b\":2}'' None
     = Some (WrongValue ''b'' (VNum 1))"
  using ExpectJSONBranch_skips_early_leaf
          [of "[''a'', ''b'', ''c'', ''d'']" example_lib "''{\"a\":1,\"b\":2}''" example_response None]
  by (simp add: example_lib_def example_decode_def example_sprint_def ExpectJSONBranch_def)

section \<open>Lemmas about \<^verbatim>\<open>Run\<close>\<close>

lemma quiet_refl: "quiet t t"
  by (simp add: quiet_def)

lemma quiet_trans: "quiet t t' \<Longrightarrow> quiet t' t'' \<Longrightarrow> quiet t t''"
  by (auto simp: quiet_def)

lemma quiet_report: "quiet t (report err t)"
  by (simp add: quiet_def report_def)

lemma quiet_applyTemplate: "quiet t (snd (applyTemplate lib t s))"
  by (simp add: applyTemplate_def quiet_report quiet_refl split: sum.splits)

lemma quiet_render_all: "quiet t (snd (render_all lib t ss))"
proof (induction ss arbitrary: t)
  case Nil
  show ?case by (simp add: quiet_refl)
next
  case (Cons s ss)
  have "quiet t (snd (applyTemplate lib t s))" by (rule quiet_applyTemplate)
  moreover have "quiet (snd (applyTemplate lib t s)) (snd (render_all lib (snd (applyTemplate lib t s)) ss))"
    by (rule Cons.IH)
  ultimately show ?case
    by (simp add: case_prod_beta Let_def) (rule quiet_trans)
qed

lemma quiet_GetBody: "quiet t (snd (GetBody lib b t))"
  by (cases b) (simp_all add: case_prod_beta Let_def quiet_applyTemplate quiet_render_all quiet_refl)

lemma quiet_set_headers: "quiet t (snd (set_headers lib hs req t))"
proof (induction hs arbitrary: req t)
  case Nil
  show ?case by (simp add: quiet_refl)
next
  case (Cons h hs)
  obtain k v where h: "h = (k, v)" by (cases h)
  let ?t1 = "snd (applyTemplate lib t k)"
  let ?t2 = "snd (applyTemplate lib ?t1 v)"
  have "quiet t ?t2"
    by (rule quiet_trans[OF quiet_applyTemplate quiet_applyTemplate])
  from quiet_trans[OF this Cons.IH] show ?case
    by (simp add: h case_prod_beta Let_def)
qed

lemma quiet_build_request: "quiet t (snd (build_request lib c t))"
proof -
  let ?t1 = "snd (GetBody lib (Body c) t)"
  let ?t2 = "snd (applyTemplate lib ?t1 (QueryStr c))"
  have q1: "quiet t ?t1" by (rule quiet_GetBody)
  have q2: "quiet t ?t2" by (rule quiet_trans[OF q1 quiet_applyTemplate])
  have q3: "\<And>e. quiet t (report e ?t1)" by (rule quiet_trans[OF q1 quiet_report])
  have q4: "\<And>e. quiet t (report e ?t2)" by (rule quiet_trans[OF q2 quiet_report])
  have q5: "\<And>hs rq. quiet t (snd (set_headers lib hs rq ?t2))"
    by (rule quiet_trans[OF q2 quiet_set_headers])
  show ?thesis
    unfolding build_request_def
    by (simp add: case_prod_beta Let_def q3 q4 q5 split: sum.splits)
qed


lemma quiet_serve: "quiet t (snd (serve req t))"
  by (simp add: serve_def quiet_def)

lemma quiet_heap: "quiet t t' \<Longrightarrow> heap t' = heap t"
  by (simp add: quiet_def)

lemma quiet_tvalues: "quiet t t' \<Longrightarrow> tvalues t' = tvalues t"
  by (simp add: quiet_def)

lemma quiet_events: "quiet t t' \<Longrightarrow> \<exists>es. events t' = events t @ es \<and> list_all silent es"
  by (simp add: quiet_def)

text \<open>The checkers add checker starts and reports, and change nothing else.\<close>

lemma run_checkers_frame:
  "tvalues (run_checkers c cks resp b t) = tvalues t \<and>
   heap (run_checkers c cks resp b t) = heap t \<and>
   (\<exists>es. events (run_checkers c cks resp b t) = events t @ es \<and>
         list_all (\<lambda>e. silent e \<or> e = CheckerRun (Name c)) es)"
proof (induction cks arbitrary: t)
  case Nil
  show ?case by simp
next
  case (Cons ck cks)
  let ?t1 = "t\<lparr>events := events t @ [CheckerRun (Name c)]\<rparr>"
  let ?t2 = "case ck resp b (map_option (heap ?t1) (respObject c)) of
               Some err \<Rightarrow> report (Named (Name c) err) ?t1 | None \<Rightarrow> ?t1"
  have t2: "tvalues ?t2 = tvalues t \<and> heap ?t2 = heap t \<and>
        (\<exists>es. events ?t2 = events t @ es \<and> list_all (\<lambda>e. silent e \<or> e = CheckerRun (Name c)) es)"
    by (simp add: report_def split: option.splits)
  from Cons.IH[of ?t2] t2 show ?case
    by (simp add: Let_def del: map_option_eq_Some) (metis (no_types, lifting) append.assoc list_all_append)
qed

lemma typed_decode_frame:
  "tvalues (snd (typed_decode lib c rb t)) = tvalues t \<and>
   events (snd (typed_decode lib c rb t)) = events t"
  by (simp add: typed_decode_def case_prod_beta Let_def split: option.splits)

lemma typed_decode_fst:
  "heap t' = heap t \<Longrightarrow> fst (typed_decode lib c rb t') = fst (typed_decode lib c rb t)"
  by (simp add: typed_decode_def case_prod_beta Let_def split: option.splits)

text \<open>What \<open>capture\<close> does, by cases.\<close>

lemma capture_no_body:
  "resp_Body resp = None \<Longrightarrow> capture lib c resp t = (Some [], t)"
  by (simp add: capture_def)

lemma capture_decode_fails:
  assumes "resp_Body resp = Some (rb, rerr)" "fst (typed_decode lib c rb t) = Some err"
  shows "fst (capture lib c resp t) = None \<and>
         tvalues (snd (capture lib c resp t)) = tvalues t \<and>
         (\<exists>es. events (snd (capture lib c resp t)) = events t @ BodyRead (Name c) # es \<and>
               list_all silent es)"
proof -
  let ?t1 = "t\<lparr>events := events t @ [BodyRead (Name c)]\<rparr>"
  let ?t2 = "case rerr of Some err \<Rightarrow> report err ?t1 | None \<Rightarrow> ?t1"
  have h: "heap ?t2 = heap t" by (simp add: report_def split: option.splits)
  have f: "fst (typed_decode lib c rb ?t2) = Some err"
    using typed_decode_fst[OF h] assms(2) by simp
  have e2: "\<exists>es. events ?t2 = events t @ BodyRead (Name c) # es \<and> list_all silent es"
    by (simp add: report_def split: option.splits)
  have v2: "tvalues ?t2 = tvalues t" by (simp add: report_def split: option.splits)
  from f e2 v2 typed_decode_frame[of lib c rb ?t2] assms(1) show ?thesis
    by (auto simp: capture_def Let_def case_prod_beta report_def)
qed

lemma capture_stores:
  assumes "resp_Body resp = Some (rb, rerr)" "fst (typed_decode lib c rb t) = None"
  shows "fst (capture lib c resp t) = Some rb \<and>
         tvalues (snd (capture lib c resp t)) =
           (tvalues t)(Name c \<mapsto> of_map (snd (json_Unmarshal_map lib rb))) \<and>
         (\<exists>es. events (snd (capture lib c resp t)) =
                 events t @ BodyRead (Name c) # es @
                   [Stored (Name c) (of_map (snd (json_Unmarshal_map lib rb)))] \<and>
               list_all silent es)"
proof -
  let ?t1 = "t\<lparr>events := events t @ [BodyRead (Name c)]\<rparr>"
  let ?t2 = "case rerr of Some err \<Rightarrow> report err ?t1 | None \<Rightarrow> ?t1"
  have h: "heap ?t2 = heap t" by (simp add: report_def split: option.splits)
  have f: "fst (typed_decode lib c rb ?t2) = None"
    using typed_decode_fst[OF h] assms(2) by simp
  have e2: "\<exists>es. events ?t2 = events t @ BodyRead (Name c) # es \<and> list_all silent es"
    by (simp add: report_def split: option.splits)
  have v2: "tvalues ?t2 = tvalues t" by (simp add: report_def split: option.splits)
  from f e2 v2 typed_decode_frame[of lib c rb ?t2] assms(1) show ?thesis
    by (auto simp: capture_def Let_def case_prod_beta)
qed

lemma trace_ok_append:
  "trace_ok n s (es @ es') \<longleftrightarrow> trace_ok n s es \<and> trace_ok n (foldl (step n) s es) es'"
  by (induction es arbitrary: s) auto

lemma step_other: "about m e \<Longrightarrow> m \<noteq> n \<Longrightarrow> step n s e = s \<and> allowed n s e"
  by (cases s; cases e) auto

lemma trace_other:
  "list_all (about m) es \<Longrightarrow> m \<noteq> n \<Longrightarrow> trace_ok n s es \<and> foldl (step n) s es = s"
  by (induction es arbitrary: s) (auto simp: step_other)

lemma step_silent: "silent e \<Longrightarrow> step n s e = s \<and> allowed n s e"
  by (cases s; cases e) auto

lemma trace_silent:
  "list_all silent es \<Longrightarrow> trace_ok n s es \<and> foldl (step n) s es = s"
  by (induction es arbitrary: s) (auto simp: step_silent)

lemma trace_checkers:
  "list_all (\<lambda>e. silent e \<or> e = CheckerRun m) es \<Longrightarrow> trace_ok n s es"
proof (induction es arbitrary: s)
  case Nil
  show ?case by simp
next
  case (Cons e es)
  then have "allowed n s e" by (cases s; cases e) auto
  with Cons show ?case by simp
qed

lemma silent_about: "list_all silent es \<Longrightarrow> list_all (about n) es"
  by (induction es) (auto elim: silent.elims)

lemma checkers_about:
  "list_all (\<lambda>e. silent e \<or> e = CheckerRun n) es \<Longrightarrow> list_all (about n) es"
  by (induction es) (auto elim: silent.elims)

text \<open>The events of one turn of the loop.\<close>

lemma run_call_events:
  "\<exists>es. events (run_call lib c t) = events t @ es \<and> list_all (about (Name c)) es \<and>
        trace_ok (Name c) (False, False, False) es"
proof -
  obtain rq t1 where br: "build_request lib c t = (rq, t1)" by (cases "build_request lib c t")
  have q1: "quiet t t1" using quiet_build_request[of t lib c] br by simp
  show ?thesis
  proof (cases rq)
    case None
    from quiet_events[OF q1] obtain es where "events t1 = events t @ es" "list_all silent es" by blast
    with None br show ?thesis
      by (auto simp: run_call_def trace_silent silent_about)
  next
    case (Some req)
    obtain resp t2 where sv: "serve req t1 = (resp, t2)" by (cases "serve req t1")
    have "quiet t1 t2" using quiet_serve[of t1 req] sv by simp
    with q1 have q2: "quiet t t2" by (rule quiet_trans)
    from quiet_events[OF q2] obtain A where A: "events t2 = events t @ A" "list_all silent A" by blast
    show ?thesis
    proof (cases "resp_Body resp")
      case None
      from run_checkers_frame[of c "checkers c" resp "[]" t2] obtain C where
        C: "events (run_checkers c (checkers c) resp [] t2) = events t2 @ C"
           "list_all (\<lambda>e. silent e \<or> e = CheckerRun (Name c)) C" by blast
      have "events (run_call lib c t) = events t @ (A @ C)"
        using br Some sv None C(1) A(1) by (simp add: run_call_def capture_no_body)
      moreover have "list_all (about (Name c)) (A @ C)"
        using A(2) C(2) by (simp add: silent_about checkers_about)
      moreover have "trace_ok (Name c) (False, False, False) (A @ C)"
        using A(2) C(2) by (simp add: trace_ok_append trace_silent trace_checkers)
      ultimately show ?thesis by blast
    next
      case (Some body)
      obtain rb rerr where body: "body = (rb, rerr)" by (cases body)
      with Some have rbody: "resp_Body resp = Some (rb, rerr)" by simp
      show ?thesis
      proof (cases "fst (typed_decode lib c rb t2)")
        case None
        obtain ob t3 where cap0: "capture lib c resp t2 = (ob, t3)"
          by (cases "capture lib c resp t2")
        from capture_stores[OF rbody None] cap0 obtain R where
          R: "ob = Some rb"
             "events t3 =
                events t2 @ BodyRead (Name c) # R @
                  [Stored (Name c) (of_map (snd (json_Unmarshal_map lib rb)))]"
             "list_all silent R" by auto
        from run_checkers_frame[of c "checkers c" resp rb t3] obtain C where
          C: "events (run_checkers c (checkers c) resp rb t3) = events t3 @ C"
             "list_all (\<lambda>e. silent e \<or> e = CheckerRun (Name c)) C" by blast
        let ?es = "A @ BodyRead (Name c) # R @
                     Stored (Name c) (of_map (snd (json_Unmarshal_map lib rb))) # C"
        have cap: "capture lib c resp t2 = (Some rb, t3)"
          using R(1) cap0 by simp
        have "events (run_call lib c t) = events t @ ?es"
          using br \<open>rq = Some req\<close> sv cap C(1) R(2) A(1) by (simp add: run_call_def)
        moreover have "list_all (about (Name c)) ?es"
          using A(2) R(3) C(2) by (simp add: silent_about checkers_about)
        moreover have "trace_ok (Name c) (False, False, False) ?es"
          using A(2) R(3) C(2)
          by (simp add: trace_ok_append trace_silent trace_checkers)
        ultimately show ?thesis by blast
      next
        case (Some err)
        obtain ob t3 where cap0: "capture lib c resp t2 = (ob, t3)"
          by (cases "capture lib c resp t2")
        from capture_decode_fails[OF rbody Some] cap0 obtain R where
          R: "ob = None"
             "events t3 = events t2 @ BodyRead (Name c) # R"
             "list_all silent R" by auto
        have cap: "capture lib c resp t2 = (None, t3)"
          using R(1) cap0 by simp
        have "events (run_call lib c t) = events t @ (A @ BodyRead (Name c) # R)"
          using br \<open>rq = Some req\<close> sv cap R(2) A(1) by (simp add: run_call_def)
        moreover have "list_all (about (Name c)) (A @ BodyRead (Name c) # R)"
          using A(2) R(3) by (simp add: silent_about)
        moreover have "trace_ok (Name c) (False, False, False) (A @ BodyRead (Name c) # R)"
          using A(2) R(3) by (simp add: trace_ok_append trace_silent)
        ultimately show ?thesis by blast
      qed
    qed
  qed
qed

lemma run_loop_append:
  "run_loop lib (cs @ cs') t = run_loop lib cs' (run_loop lib cs t)"
  by (induction cs arbitrary: t) auto

text \<open>The value store after one turn of the loop.\<close>

lemma run_call_store:
  "tvalues (run_call lib c t) =
     (case response_body lib c t of
        None \<Rightarrow> tvalues t
      | Some (rb, rerr) \<Rightarrow>
          if captures lib c t
          then (tvalues t)(Name c \<mapsto> of_map (snd (json_Unmarshal_map lib rb)))
          else tvalues t)"
proof -
  obtain rq t1 where br: "build_request lib c t = (rq, t1)" by (cases "build_request lib c t")
  have q1: "quiet t t1" using quiet_build_request[of t lib c] br by simp
  show ?thesis
  proof (cases rq)
    case None
    with br q1 show ?thesis
      by (simp add: run_call_def response_body_def quiet_tvalues)
  next
    case (Some req)
    obtain resp t2 where sv: "serve req t1 = (resp, t2)" by (cases "serve req t1")
    have q12: "quiet t1 t2" using quiet_serve[of t1 req] sv by simp
    with q1 have q2: "quiet t t2" by (rule quiet_trans)
    show ?thesis
    proof (cases "resp_Body resp")
      case None
      with br Some sv q2 show ?thesis
        by (simp add: run_call_def response_body_def capture_no_body run_checkers_frame quiet_tvalues)
    next
      case (Some body)
      obtain rb rerr where body: "body = (rb, rerr)" by (cases body)
      with Some have rbody: "resp_Body resp = Some (rb, rerr)" by simp
      have td: "fst (typed_decode lib c rb t2) = fst (typed_decode lib c rb t1)"
        by (rule typed_decode_fst[OF quiet_heap[OF q12]])
      obtain ob t3 where cap0: "capture lib c resp t2 = (ob, t3)"
        by (cases "capture lib c resp t2")
      show ?thesis
      proof (cases "fst (typed_decode lib c rb t1)")
        case None
        with td have "fst (typed_decode lib c rb t2) = None" by simp
        from capture_stores[OF rbody this] cap0 have
          "ob = Some rb" "tvalues t3 = (tvalues t2)(Name c \<mapsto> of_map (snd (json_Unmarshal_map lib rb)))"
          by auto
        with br \<open>rq = Some req\<close> sv rbody None cap0 q2 show ?thesis
          by (simp add: run_call_def response_body_def captures_def run_checkers_frame quiet_tvalues)
      next
        case (Some err)
        with td have "fst (typed_decode lib c rb t2) = Some err" by simp
        from capture_decode_fails[OF rbody this] cap0 have
          "ob = None" "tvalues t3 = tvalues t2" by auto
        with br \<open>rq = Some req\<close> sv rbody Some cap0 q2 show ?thesis
          by (simp add: run_call_def response_body_def captures_def quiet_tvalues)
      qed
    qed
  qed
qed

lemma captures_response_body:
  "captures lib c t \<Longrightarrow> \<exists>rb rerr. response_body lib c t = Some (rb, rerr)"
  by (auto simp: captures_def response_body_def split: prod.splits option.splits)

lemma run_call_captures: "captures lib c t \<Longrightarrow> tvalues (run_call lib c t) (Name c) \<noteq> None"
  using captures_response_body[of lib c t] by (auto simp: run_call_store)

lemma run_call_dom_mono: "tvalues t n \<noteq> None \<Longrightarrow> tvalues (run_call lib c t) n \<noteq> None"
  by (auto simp: run_call_store split: option.splits)

lemma run_call_dom_upper:
  "tvalues (run_call lib c t) n \<noteq> None \<Longrightarrow> tvalues t n \<noteq> None \<or> n = Name c"
  by (auto simp: run_call_store split: option.splits if_splits)

lemma run_loop_dom_mono: "tvalues t n \<noteq> None \<Longrightarrow> tvalues (run_loop lib cs t) n \<noteq> None"
proof (induction cs arbitrary: t)
  case Nil
  then show ?case by simp
next
  case (Cons c cs)
  from Cons.prems have "tvalues (run_call lib c t) n \<noteq> None" by (rule run_call_dom_mono)
  from Cons.IH[OF this] show ?case by simp
qed

lemma run_loop_dom_upper:
  "tvalues (run_loop lib cs t) n \<noteq> None \<Longrightarrow> tvalues t n \<noteq> None \<or> n \<in> Name ` set cs"
proof (induction cs arbitrary: t)
  case Nil
  then show ?case by simp
next
  case (Cons c cs)
  from Cons.prems have "tvalues (run_loop lib cs (run_call lib c t)) n \<noteq> None" by simp
  from Cons.IH[OF this] run_call_dom_upper[of lib c t n] show ?case by auto
qed

text \<open>The events of the whole loop, scanned for one call name.\<close>

lemma run_loop_events:
  "distinct (map Name cs) \<Longrightarrow> (n \<in> Name ` set cs \<longrightarrow> s = (False, False, False)) \<Longrightarrow>
     \<exists>es. events (run_loop lib cs t) = events t @ es \<and> trace_ok n s es"
proof (induction cs arbitrary: t s)
  case Nil
  show ?case by simp
next
  case (Cons c cs)
  from run_call_events[of lib c t] obtain es1 where
    es1: "events (run_call lib c t) = events t @ es1" "list_all (about (Name c)) es1"
         "trace_ok (Name c) (False, False, False) es1" by blast
  have d: "distinct (map Name cs)" using Cons.prems(1) by simp
  show ?case
  proof (cases "n = Name c")
    case True
    with Cons.prems have s: "s = (False, False, False)" and notin: "n \<notin> Name ` set cs" by auto
    from Cons.IH[OF d, of "foldl (step n) s es1" "run_call lib c t"] notin obtain es2 where
      "events (run_loop lib cs (run_call lib c t)) = events (run_call lib c t) @ es2"
      "trace_ok n (foldl (step n) s es1) es2" by blast
    with es1 True s have "events (run_loop lib (c # cs) t) = events t @ (es1 @ es2) \<and>
        trace_ok n s (es1 @ es2)"
      by (simp add: trace_ok_append)
    then show ?thesis by blast
  next
    case False
    with es1(2) have o: "trace_ok n s es1 \<and> foldl (step n) s es1 = s"
      using trace_other[of "Name c" es1 n s] by simp
    from Cons.prems(2) False have "n \<in> Name ` set cs \<longrightarrow> s = (False, False, False)" by simp
    from Cons.IH[OF d this, of "run_call lib c t"] obtain es2 where
      "events (run_loop lib cs (run_call lib c t)) = events (run_call lib c t) @ es2"
      "trace_ok n s es2" by blast
    with es1 o have "events (run_loop lib (c # cs) t) = events t @ (es1 @ es2) \<and>
        trace_ok n s (es1 @ es2)"
      by (simp add: trace_ok_append)
    then show ?thesis by blast
  qed
qed

lemma trace_ok_written:
  "trace_ok n (r, c, True) es \<Longrightarrow> Stored n v \<notin> set es"
proof (induction es arbitrary: r c)
  case Nil
  show ?case by simp
next
  case (Cons e es)
  then show ?case by (cases e) (auto split: if_splits)
qed

lemma trace_ok_split:
  "trace_ok n (r, c, w) (xs @ Stored n v # ys) \<Longrightarrow>
     (r \<or> BodyRead n \<in> set xs) \<and> \<not> c \<and> CheckerRun n \<notin> set xs \<and> \<not> w \<and>
     (\<forall>v'. Stored n v' \<notin> set xs) \<and> (\<forall>v'. Stored n v' \<notin> set ys)"
proof (induction xs arbitrary: r c w)
  case Nil
  then show ?case by (auto dest: trace_ok_written)
next
  case (Cons e xs)
  show ?case
  proof (cases e)
    case (BodyRead m)
    with Cons.prems Cons.IH[of "r \<or> m = n" c w] show ?thesis by (auto split: if_splits)
  next
    case (CheckerRun m)
    with Cons.prems Cons.IH[of r "c \<or> m = n" w] show ?thesis by (auto split: if_splits)
  next
    case (Stored m v0)
    with Cons.prems Cons.IH[of r c "w \<or> m = n"] show ?thesis by (auto split: if_splits)
  next
    case (Report err)
    with Cons.prems Cons.IH[of r c w] show ?thesis by auto
  next
    case (Served rq)
    with Cons.prems Cons.IH[of r c w] show ?thesis by auto
  qed
qed

lemma new_events_eq: "events t' = events t @ es \<Longrightarrow> new_events t t' = es"
  by (simp add: new_events_def)

lemma capture_events_ext: "\<exists>es. events (snd (capture lib c resp t)) = events t @ es"
proof (cases "resp_Body resp")
  case None
  then show ?thesis by (simp add: capture_no_body)
next
  case (Some body)
  obtain rb rerr where "body = (rb, rerr)" by (cases body)
  with Some have rbody: "resp_Body resp = Some (rb, rerr)" by simp
  show ?thesis
  proof (cases "fst (typed_decode lib c rb t)")
    case None
    from capture_stores[OF rbody None] show ?thesis by auto
  next
    case (Some err)
    from capture_decode_fails[OF rbody Some] show ?thesis by auto
  qed
qed

lemma run_call_after_serve:
  assumes "build_request lib c t = (Some rq, t1)"
  shows "\<exists>es. events (run_call lib c t) = events t1 @ Served rq # es"
proof -
  obtain resp t2 where sv: "serve rq t1 = (resp, t2)" by (cases "serve rq t1")
  then have e2: "events t2 = events t1 @ [Served rq]" by (auto simp: serve_def)
  obtain ob t3 where cap: "capture lib c resp t2 = (ob, t3)" by (cases "capture lib c resp t2")
  from capture_events_ext[of lib c resp t2] cap obtain es3 where e3: "events t3 = events t2 @ es3"
    by auto
  show ?thesis
  proof (cases ob)
    case None
    with assms sv cap e2 e3 show ?thesis by (simp add: run_call_def)
  next
    case (Some b)
    from run_checkers_frame[of c "checkers c" resp b t3] obtain es4 where
      "events (run_checkers c (checkers c) resp b t3) = events t3 @ es4" by blast
    with Some assms sv cap e2 e3 show ?thesis by (simp add: run_call_def)
  qed
qed

lemma run_loop_events_ext: "\<exists>es. events (run_loop lib cs t) = events t @ es"
proof (induction cs arbitrary: t)
  case Nil
  show ?case by simp
next
  case (Cons c cs)
  from run_call_events[of lib c t] obtain es1 where "events (run_call lib c t) = events t @ es1"
    by blast
  moreover from Cons.IH[of "run_call lib c t"] obtain es2 where
    "events (run_loop lib cs (run_call lib c t)) = events (run_call lib c t) @ es2" by blast
  ultimately show ?case by simp
qed

text \<open>Making a body adds only reports.\<close>

lemma applyTemplate_reports:
  "\<exists>es. events (snd (applyTemplate lib t s)) = events t @ es \<and> (\<forall>x \<in> set es. \<exists>err. x = Report err)"
  by (simp add: applyTemplate_def report_def split: sum.splits)

lemma render_all_reports:
  "\<exists>es. events (snd (render_all lib t ss)) = events t @ es \<and> (\<forall>x \<in> set es. \<exists>err. x = Report err)"
proof (induction ss arbitrary: t)
  case Nil
  show ?case by simp
next
  case (Cons s ss)
  let ?t1 = "snd (applyTemplate lib t s)"
  from applyTemplate_reports[of lib t s] obtain es1 where
    e1: "events ?t1 = events t @ es1" "\<forall>x \<in> set es1. \<exists>err. x = Report err" by blast
  from Cons.IH[of ?t1] obtain es2 where
    e2: "events (snd (render_all lib ?t1 ss)) = events ?t1 @ es2"
        "\<forall>x \<in> set es2. \<exists>err. x = Report err" by blast
  have "events (snd (render_all lib t (s # ss))) = events t @ (es1 @ es2)"
    using e1(1) e2(1) by (simp add: case_prod_beta Let_def)
  moreover have "\<forall>x \<in> set (es1 @ es2). \<exists>err. x = Report err"
    using e1(2) e2(2) by auto
  ultimately show ?case by blast
qed

lemma GetBody_reports:
  "\<exists>es. events (snd (GetBody lib b t)) = events t @ es \<and> (\<forall>x \<in> set es. \<exists>err. x = Report err)"
proof (cases b)
  case (StringBody s)
  with applyTemplate_reports[of lib t s] show ?thesis by (simp add: case_prod_beta Let_def)
next
  case NoopBody
  then show ?thesis by simp
next
  case (CustomBody ss build ct)
  with render_all_reports[of lib t ss] show ?thesis by (simp add: case_prod_beta Let_def)
qed

text \<open>The definitions unfolded to run the model on a concrete scenario.\<close>

lemmas example_defs =
  example_lib_def example_decode_def example_call_def answer_def NewTester_def
  Run_def run_call_def build_request_def serve_def capture_def typed_decode_def
  applyTemplate_def Apply_def report_def new_events_def response_body_def captures_def Let_def


section \<open>Properties of \<^verbatim>\<open>Run\<close>\<close>

text \<open>
  Claim C1 says that after a call finishes the value store has an entry for every call
  so far that produced a response body. In this scenario the only call has a decode
  target, the handler answers with the body \<^verbatim>\<open>oops\<close>, the typed decode fails and the loop
  continues before the write of the entry: the body was produced and read, and the store
  has no entry for the call.
\<close>

theorem Run_typed_decode_failure_counterexample:
  "distinct (map Name (Calls typed_fail))
   \<and> tvalues typed_fail = Map.empty
   \<and> response_body example_lib (hd (Calls typed_fail)) typed_fail = Some (''oops'', None)
   \<and> BodyRead ''c'' \<in> set (events (Run example_lib typed_fail))
   \<and> tvalues (Run example_lib typed_fail) ''c'' = None"
  by (simp add: typed_fail_def example_defs)

text \<open>
  Claim C1, amended. Take a tester whose calls have distinct names and whose value
  store has no entry for any of them. Among the events that \<^verbatim>\<open>Run\<close> adds, the write of the
  entry of a call name happens at most once, after the response body of that call is read
  and before any checker of that call starts. After call \<open>i\<close> finishes, the store has no
  entry for any later call, and it has an entry for a call \<open>j \<le> i\<close> exactly when that call
  got a response with a body and its typed decode, if a decode target is registered, did
  not fail.
\<close>

theorem Run_store_written_once_in_order:
  assumes dist: "distinct (map Name (Calls t))"
    and fresh: "\<forall>c \<in> set (Calls t). tvalues t (Name c) = None"
  shows "(\<forall>n xs v ys. new_events t (Run lib t) = xs @ Stored n v # ys \<longrightarrow>
            BodyRead n \<in> set xs \<and> CheckerRun n \<notin> set xs \<and>
            (\<forall>v'. Stored n v' \<notin> set xs \<and> Stored n v' \<notin> set ys))
       \<and> (\<forall>pre c post. Calls t = pre @ c # post \<longrightarrow>
            (\<forall>k \<in> set post. tvalues (run_loop lib (pre @ [c]) t) (Name k) = None) \<and>
            (\<forall>p cj q. pre @ [c] = p @ cj # q \<longrightarrow>
               (tvalues (run_loop lib (pre @ [c]) t) (Name cj) \<noteq> None) =
                 captures lib cj (run_loop lib p t)))"
proof (intro conjI allI impI ballI)
  fix n xs v ys
  assume split: "new_events t (Run lib t) = xs @ Stored n v # ys"
  from run_loop_events[OF dist, of n "(False, False, False)" lib t] obtain es where
    es: "events (Run lib t) = events t @ es" "trace_ok n (False, False, False) es"
    by (auto simp: Run_def)
  from new_events_eq[OF es(1)] split have "es = xs @ Stored n v # ys" by simp
  with es(2) have "trace_ok n (False, False, False) (xs @ Stored n v # ys)" by simp
  from trace_ok_split[OF this]
  show "BodyRead n \<in> set xs" and "CheckerRun n \<notin> set xs"
    and "\<And>v'. Stored n v' \<notin> set xs" and "\<And>v'. Stored n v' \<notin> set ys"
    by auto
next
  fix pre c post k
  assume calls: "Calls t = pre @ c # post" and k: "k \<in> set post"
  show "tvalues (run_loop lib (pre @ [c]) t) (Name k) = None"
  proof (rule ccontr)
    assume "tvalues (run_loop lib (pre @ [c]) t) (Name k) \<noteq> None"
    from run_loop_dom_upper[OF this]
    have "tvalues t (Name k) \<noteq> None \<or> Name k \<in> Name ` set (pre @ [c])" .
    moreover from fresh calls k have "tvalues t (Name k) = None" by simp
    moreover have "Name k \<notin> Name ` set (pre @ [c])"
    proof -
      have kin: "Name k \<in> Name ` set post" using k by (rule imageI)
      from dist calls have "Name c \<notin> Name ` set post" "Name ` set pre \<inter> Name ` set post = {}"
        by auto
      with kin have "Name k \<noteq> Name c" "Name k \<notin> Name ` set pre" by auto
      then show ?thesis by simp
    qed
    ultimately show False by simp
  qed
next
  fix pre c post p cj q
  assume calls: "Calls t = pre @ c # post" and split: "pre @ [c] = p @ cj # q"
  let ?tp = "run_loop lib p t"
  have loop: "run_loop lib (pre @ [c]) t = run_loop lib q (run_call lib cj ?tp)"
    by (simp add: split run_loop_append)
  from calls split have calls': "Calls t = p @ cj # q @ post" by simp
  from dist calls' have np: "Name cj \<notin> Name ` set p" and nq: "Name cj \<notin> Name ` set q" by auto
  from fresh calls' have "tvalues t (Name cj) = None" by simp
  with np run_loop_dom_upper[of lib p t "Name cj"] have before: "tvalues ?tp (Name cj) = None"
    by blast
  show "(tvalues (run_loop lib (pre @ [c]) t) (Name cj) \<noteq> None) = captures lib cj ?tp"
  proof
    assume "tvalues (run_loop lib (pre @ [c]) t) (Name cj) \<noteq> None"
    with loop nq run_loop_dom_upper[of lib q "run_call lib cj ?tp" "Name cj"]
    have "tvalues (run_call lib cj ?tp) (Name cj) \<noteq> None" by auto
    with before show "captures lib cj ?tp"
      by (auto simp: run_call_store split: option.splits if_splits)
  next
    assume "captures lib cj ?tp"
    then have "tvalues (run_call lib cj ?tp) (Name cj) \<noteq> None" by (rule run_call_captures)
    then show "tvalues (run_loop lib (pre @ [c]) t) (Name cj) \<noteq> None"
      unfolding loop by (rule run_loop_dom_mono)
  qed
qed

text \<open>The amended claim C1 on two calls that both succeed: the events of the run, and
  the store after the first call.\<close>

theorem Run_store_written_once_in_order_witness:
  "distinct (map Name (Calls two_calls))
   \<and> new_events two_calls (Run example_lib two_calls) =
       [Served \<lparr>rq_Method = ''POST'', rq_URL = ''/items'', rq_Body = [], rq_Header = Map.empty\<rparr>,
        BodyRead ''create'', Stored ''create'' (VMap [''id'' \<mapsto> VNum 7]),
        Served \<lparr>rq_Method = ''GET'', rq_URL = ''/items/7'', rq_Body = [], rq_Header = Map.empty\<rparr>,
        BodyRead ''fetch'', Stored ''fetch'' (VMap [''id'' \<mapsto> VNum 7])]
   \<and> captures example_lib (example_call ''create'' ''POST'' ''/items'') two_calls
   \<and> tvalues (run_loop example_lib [example_call ''create'' ''POST'' ''/items''] two_calls) ''create'' \<noteq> None
   \<and> tvalues (run_loop example_lib [example_call ''create'' ''POST'' ''/items''] two_calls) ''fetch'' = None"
proof -
  have d: "distinct (map Name (Calls two_calls))"
    by (simp add: two_calls_def example_defs)
  have f: "\<forall>c \<in> set (Calls two_calls). tvalues two_calls (Name c) = None"
    by (simp add: two_calls_def example_defs)
  have c: "Calls two_calls =
      [] @ example_call ''create'' ''POST'' ''/items'' # [example_call ''fetch'' ''GET'' ''/items/7'']"
    by (simp add: two_calls_def NewTester_def)
  have e: "new_events two_calls (Run example_lib two_calls) =
       [Served \<lparr>rq_Method = ''POST'', rq_URL = ''/items'', rq_Body = [], rq_Header = Map.empty\<rparr>,
        BodyRead ''create'', Stored ''create'' (VMap [''id'' \<mapsto> VNum 7]),
        Served \<lparr>rq_Method = ''GET'', rq_URL = ''/items/7'', rq_Body = [], rq_Header = Map.empty\<rparr>,
        BodyRead ''fetch'', Stored ''fetch'' (VMap [''id'' \<mapsto> VNum 7])]"
    by (simp add: two_calls_def example_defs)
  have cap: "captures example_lib (example_call ''create'' ''POST'' ''/items'') (run_loop example_lib [] two_calls)"
    by (simp add: two_calls_def example_defs)
  note th = Run_store_written_once_in_order [OF d f, of example_lib, THEN conjunct2, rule_format, OF c]
  have fetch0: "tvalues (run_loop example_lib ([] @ [example_call ''create'' ''POST'' ''/items'']) two_calls)
                 (Name (example_call ''fetch'' ''GET'' ''/items/7'')) = None"
    by (rule th[THEN conjunct1, rule_format]) simp
  have create0: "(tvalues (run_loop example_lib ([] @ [example_call ''create'' ''POST'' ''/items'']) two_calls)
                  (Name (example_call ''create'' ''POST'' ''/items'')) \<noteq> None)
                = captures example_lib (example_call ''create'' ''POST'' ''/items'') (run_loop example_lib [] two_calls)"
    by (rule th[THEN conjunct2, rule_format]) simp
  have nm: "Name (example_call ''create'' ''POST'' ''/items'') = ''create''"
           "Name (example_call ''fetch'' ''GET'' ''/items/7'') = ''fetch''"
    by (simp_all add: example_call_def)
  from create0 cap have create1:
    "tvalues (run_loop example_lib ([] @ [example_call ''create'' ''POST'' ''/items'']) two_calls)
                  (Name (example_call ''create'' ''POST'' ''/items'')) \<noteq> None" by simp
  have "tvalues (run_loop example_lib [example_call ''create'' ''POST'' ''/items''] two_calls) ''create'' \<noteq> None"
    using create1 unfolding nm append_Nil .
  moreover have "tvalues (run_loop example_lib [example_call ''create'' ''POST'' ''/items''] two_calls) ''fetch'' = None"
    using fetch0 unfolding nm append_Nil .
  moreover have "captures example_lib (example_call ''create'' ''POST'' ''/items'') two_calls"
    using cap by simp
  ultimately show ?thesis using d e by blast
qed

text \<open>
  Claim C2 says that a call whose query-string template fails to render is skipped
  without its request being issued. In this scenario the query string \<^verbatim>\<open>{{\<close> does not
  parse: the error is reported, the render gives the empty string, the request is built
  with the empty URL and served, and its response is read and stored.
\<close>

theorem Run_bad_query_counterexample:
  "Apply example_lib (tvalues bad_query) (QueryStr (hd (Calls bad_query))) = Inl (External ''unclosed action'')
   \<and> events (Run example_lib bad_query) =
       [Report (External ''unclosed action''),
        Served \<lparr>rq_Method = ''GET'', rq_URL = [], rq_Body = [], rq_Header = Map.empty\<rparr>,
        BodyRead ''c'',
        Stored ''c'' (VMap [''id'' \<mapsto> VNum 7])]"
  by (simp add: bad_query_def example_defs)

text \<open>
  Claim C2, amended. When a template fails to render, the render function reports the
  error and returns the empty string. Take a call whose query-string template fails to
  render. When the body of the call is made without error, \<^verbatim>\<open>Run\<close> reports the render
  error and goes on with the same call: the request is built with the empty URL and, when
  \<^verbatim>\<open>http.NewRequest\<close> accepts it, it is served to the handler; when \<^verbatim>\<open>http.NewRequest\<close>
  refuses it, that second error is reported and the call is left. When the body of the
  call cannot be made, the error of the body is reported and the call is left before the
  query string is rendered: the call adds only reports, and nothing is served. In every
  case \<^verbatim>\<open>Run\<close> continues with the next call.
\<close>

theorem Run_query_render_failure:
  "(\<forall>s e. Apply lib (tvalues t) s = Inl e \<longrightarrow> applyTemplate lib t s = ([], report e t))
   \<and> (\<forall>b t1 e req.
        GetBody lib (Body c) t = (Inr b, t1) \<and> Apply lib (tvalues t) (QueryStr c) = Inl e \<and>
        http_NewRequest lib (Method c) [] b = Inr req \<longrightarrow>
          (\<exists>rq t2. build_request lib c t = (Some rq, t2) \<and>
                   rq = fst (set_headers lib (headers c)
                              (if ContentType lib (Body c) \<noteq> []
                               then Header_Set lib req ''content-type'' (ContentType lib (Body c))
                               else req)
                              (report e t1)) \<and>
                   Report e \<in> set (new_events t (run_call lib c t)) \<and>
                   Served rq \<in> set (new_events t (run_call lib c t))))
   \<and> (\<forall>b t1 e e'.
        GetBody lib (Body c) t = (Inr b, t1) \<and> Apply lib (tvalues t) (QueryStr c) = Inl e \<and>
        http_NewRequest lib (Method c) [] b = Inl e' \<longrightarrow>
          run_call lib c t = report e' (report e t1))
   \<and> (\<forall>e0 t1.
        GetBody lib (Body c) t = (Inl e0, t1) \<longrightarrow>
          run_call lib c t = report e0 t1 \<and>
          (\<forall>x \<in> set (new_events t (run_call lib c t)). \<exists>err. x = Report err))
   \<and> (\<forall>cs. run_loop lib (c # cs) t = run_loop lib cs (run_call lib c t))"
proof (intro conjI allI impI)
  fix s e assume "Apply lib (tvalues t) s = Inl e"
  then show "applyTemplate lib t s = ([], report e t)" by (simp add: applyTemplate_def)
next
  fix b t1 e req
  assume a: "GetBody lib (Body c) t = (Inr b, t1) \<and> Apply lib (tvalues t) (QueryStr c) = Inl e \<and>
        http_NewRequest lib (Method c) [] b = Inr req"
  have q1: "quiet t t1" using quiet_GetBody[of t lib "Body c"] a by simp
  then have "tvalues t1 = tvalues t" by (rule quiet_tvalues)
  with a have at: "applyTemplate lib t1 (QueryStr c) = ([], report e t1)"
    by (simp add: applyTemplate_def)
  from quiet_events[OF q1] obtain es1 where es1: "events t1 = events t @ es1" by blast
  let ?req1 = "if ContentType lib (Body c) \<noteq> []
               then Header_Set lib req ''content-type'' (ContentType lib (Body c)) else req"
  obtain rq t2 where sh: "set_headers lib (headers c) ?req1 (report e t1) = (rq, t2)"
    by (cases "set_headers lib (headers c) ?req1 (report e t1)")
  have "quiet (report e t1) t2" using quiet_set_headers[of "report e t1" lib "headers c" ?req1] sh
    by simp
  from quiet_events[OF this] obtain es2 where "events t2 = events (report e t1) @ es2" by blast
  with es1 have e2: "events t2 = events t @ es1 @ Report e # es2" by (simp add: report_def)
  have br: "build_request lib c t = (Some rq, t2)"
    using a at sh by (simp add: build_request_def Let_def)
  from run_call_after_serve[OF br] obtain es3 where
    "events (run_call lib c t) = events t2 @ Served rq # es3" by blast
  with e2 have "events (run_call lib c t) = events t @ (es1 @ Report e # es2 @ Served rq # es3)"
    by simp
  from new_events_eq[OF this] have
    "Report e \<in> set (new_events t (run_call lib c t)) \<and> Served rq \<in> set (new_events t (run_call lib c t))"
    by simp
  moreover from sh have "rq = fst (set_headers lib (headers c) ?req1 (report e t1))" by simp
  ultimately show "\<exists>rq t2. build_request lib c t = (Some rq, t2) \<and>
                   rq = fst (set_headers lib (headers c)
                              (if ContentType lib (Body c) \<noteq> []
                               then Header_Set lib req ''content-type'' (ContentType lib (Body c))
                               else req)
                              (report e t1)) \<and>
                   Report e \<in> set (new_events t (run_call lib c t)) \<and>
                   Served rq \<in> set (new_events t (run_call lib c t))" using br by blast
next
  fix b t1 e e'
  assume a: "GetBody lib (Body c) t = (Inr b, t1) \<and> Apply lib (tvalues t) (QueryStr c) = Inl e \<and>
        http_NewRequest lib (Method c) [] b = Inl e'"
  have q1: "quiet t t1" using quiet_GetBody[of t lib "Body c"] a by simp
  then have "tvalues t1 = tvalues t" by (rule quiet_tvalues)
  with a have at: "applyTemplate lib t1 (QueryStr c) = ([], report e t1)"
    by (simp add: applyTemplate_def)
  with a show "run_call lib c t = report e' (report e t1)"
    by (simp add: run_call_def build_request_def)
next
  fix e0 and t1 :: tester
  assume a: "GetBody lib (Body c) t = (Inl e0, t1)"
  then show r: "run_call lib c t = report e0 t1"
    by (simp add: run_call_def build_request_def)
  from GetBody_reports[of lib "Body c" t] a obtain es where
    es: "events t1 = events t @ es" "\<forall>x \<in> set es. \<exists>err. x = Report err" by auto
  from es(1) r have "events (run_call lib c t) = events t @ (es @ [Report e0])"
    by (simp add: report_def)
  from new_events_eq[OF this] es(2)
  show "\<forall>x \<in> set (new_events t (run_call lib c t)). \<exists>err. x = Report err" by auto
next
  fix cs show "run_loop lib (c # cs) t = run_loop lib cs (run_call lib c t)" by simp
qed

text \<open>The amended claim C2 on the call whose query string is \<^verbatim>\<open>{{\<close>, with a body that
  is made and with a body that cannot be made.\<close>

theorem Run_query_render_failure_witness:
  "Apply example_lib (tvalues bad_query) ''{{'' = Inl (External ''unclosed action'')
   \<and> applyTemplate example_lib bad_query ''{{'' = ([], report (External ''unclosed action'') bad_query)
   \<and> Report (External ''unclosed action'')
        \<in> set (new_events bad_query (run_call example_lib (example_call ''c'' ''GET'' ''{{'') bad_query))
   \<and> Served \<lparr>rq_Method = ''GET'', rq_URL = [], rq_Body = [], rq_Header = Map.empty\<rparr>
        \<in> set (new_events bad_query (run_call example_lib (example_call ''c'' ''GET'' ''{{'') bad_query))
   \<and> Apply example_lib (tvalues bad_body) (QueryStr (hd (Calls bad_body)))
        = Inl (External ''unclosed action'')
   \<and> GetBody example_lib (Body (hd (Calls bad_body))) bad_body = (Inl (External ''no body''), bad_body)
   \<and> run_call example_lib (hd (Calls bad_body)) bad_body = report (External ''no body'') bad_body
   \<and> events (Run example_lib bad_body) = [Report (External ''no body'')]"
proof -
  have a: "Apply example_lib (tvalues bad_query) ''{{'' = Inl (External ''unclosed action'')"
    by (simp add: bad_query_def example_defs)
  note th = Run_query_render_failure [of example_lib bad_query "example_call ''c'' ''GET'' ''{{''"]
  from th[THEN conjunct1, rule_format, OF a]
  have b: "applyTemplate example_lib bad_query ''{{'' = ([], report (External ''unclosed action'') bad_query)" .
  have g: "GetBody example_lib (Body (example_call ''c'' ''GET'' ''{{'')) bad_query = (Inr [], bad_query)"
    by (simp add: example_call_def)
  have q: "Apply example_lib (tvalues bad_query) (QueryStr (example_call ''c'' ''GET'' ''{{''))
             = Inl (External ''unclosed action'')"
    using a by (simp add: example_call_def)
  have n: "http_NewRequest example_lib (Method (example_call ''c'' ''GET'' ''{{'')) [] []
             = Inr \<lparr>rq_Method = ''GET'', rq_URL = [], rq_Body = [], rq_Header = Map.empty\<rparr>"
    by (simp add: example_lib_def example_call_def)
  from th[THEN conjunct2, THEN conjunct1, rule_format, OF conjI[OF g conjI[OF q n]]]
  obtain rq t2 where
    r: "build_request example_lib (example_call ''c'' ''GET'' ''{{'') bad_query = (Some rq, t2)"
       "Report (External ''unclosed action'')
          \<in> set (new_events bad_query (run_call example_lib (example_call ''c'' ''GET'' ''{{'') bad_query))"
       "Served rq \<in> set (new_events bad_query (run_call example_lib (example_call ''c'' ''GET'' ''{{'') bad_query))"
    by blast
  from r(1) have "rq = \<lparr>rq_Method = ''GET'', rq_URL = [], rq_Body = [], rq_Header = Map.empty\<rparr>"
    by (simp add: bad_query_def example_defs)
  with a b r have first:
    "Apply example_lib (tvalues bad_query) ''{{'' = Inl (External ''unclosed action'')
     \<and> applyTemplate example_lib bad_query ''{{'' = ([], report (External ''unclosed action'') bad_query)
     \<and> Report (External ''unclosed action'')
        \<in> set (new_events bad_query (run_call example_lib (example_call ''c'' ''GET'' ''{{'') bad_query))
     \<and> Served \<lparr>rq_Method = ''GET'', rq_URL = [], rq_Body = [], rq_Header = Map.empty\<rparr>
        \<in> set (new_events bad_query (run_call example_lib (example_call ''c'' ''GET'' ''{{'') bad_query))"
    by simp
  have qb: "Apply example_lib (tvalues bad_body) (QueryStr (hd (Calls bad_body)))
              = Inl (External ''unclosed action'')"
    by (simp add: bad_body_def example_defs)
  have gb: "GetBody example_lib (Body (hd (Calls bad_body))) bad_body
              = (Inl (External ''no body''), bad_body)"
    by (simp add: bad_body_def example_call_def NewTester_def)
  from Run_query_render_failure [of example_lib bad_body "hd (Calls bad_body)",
      THEN conjunct2, THEN conjunct2, THEN conjunct2, THEN conjunct1, rule_format, OF gb]
  have rb: "run_call example_lib (hd (Calls bad_body)) bad_body = report (External ''no body'') bad_body"
    by blast
  have cb: "Calls bad_body = [hd (Calls bad_body)]"
    by (simp add: bad_body_def NewTester_def)
  have "Run example_lib bad_body = run_call example_lib (hd (Calls bad_body)) bad_body"
    unfolding Run_def by (subst cb) simp
  with rb have "events (Run example_lib bad_body) = events (report (External ''no body'') bad_body)"
    by simp
  then have eb: "events (Run example_lib bad_body) = [Report (External ''no body'')]"
    by (simp add: report_def bad_body_def NewTester_def)
  from first qb gb rb eb show ?thesis by simp
qed

text \<open>
  Claim C6. \<^verbatim>\<open>Run\<close> never aborts early. Whatever happened in the calls before it, every
  call of the list runs, from the state the calls before it left, and the calls after it
  run too; the reports made so far are kept. For each kind of failure the loop goes on
  with the next call: a body that cannot be made, a request that cannot be built, a typed
  decode that fails; and after a checker fails the next checkers of the call run.
  Running a tester with no call changes nothing: no failure is reported.
\<close>

theorem Run_never_aborts:
  "(\<forall>cs1 c cs2. run_loop lib (cs1 @ c # cs2) t = run_loop lib cs2 (run_call lib c (run_loop lib cs1 t)))
   \<and> (\<forall>cs1 c cs2. Calls t = cs1 @ c # cs2 \<longrightarrow>
         Run lib t = run_loop lib cs2 (run_call lib c (run_loop lib cs1 t)))
   \<and> (\<exists>es. events (Run lib t) = events t @ es)
   \<and> (\<forall>c cs e t1. GetBody lib (Body c) t = (Inl e, t1) \<longrightarrow>
         run_loop lib (c # cs) t = run_loop lib cs (report e t1))
   \<and> (\<forall>c cs b t1 url t2 e.
         GetBody lib (Body c) t = (Inr b, t1) \<and> applyTemplate lib t1 (QueryStr c) = (url, t2) \<and>
         http_NewRequest lib (Method c) url b = Inl e \<longrightarrow>
         run_loop lib (c # cs) t = run_loop lib cs (report e t2))
   \<and> (\<forall>c cs req t1 resp t2 t3.
         build_request lib c t = (Some req, t1) \<and> serve req t1 = (resp, t2) \<and>
         capture lib c resp t2 = (None, t3) \<longrightarrow>
         run_loop lib (c # cs) t = run_loop lib cs t3)
   \<and> (\<forall>c ck cks resp b e.
         ck resp b (map_option (heap t) (respObject c)) = Some e \<longrightarrow>
         run_checkers c (ck # cks) resp b t =
           run_checkers c cks resp b
             (report (Named (Name c) e) (t\<lparr>events := events t @ [CheckerRun (Name c)]\<rparr>)))
   \<and> (Calls t = [] \<longrightarrow> Run lib t = t)"
proof (intro conjI allI impI)
  fix cs1 c cs2
  show "run_loop lib (cs1 @ c # cs2) t = run_loop lib cs2 (run_call lib c (run_loop lib cs1 t))"
    by (simp add: run_loop_append)
next
  fix cs1 c cs2 assume "Calls t = cs1 @ c # cs2"
  then show "Run lib t = run_loop lib cs2 (run_call lib c (run_loop lib cs1 t))"
    by (simp add: Run_def run_loop_append)
next
  show "\<exists>es. events (Run lib t) = events t @ es"
    unfolding Run_def by (rule run_loop_events_ext)
next
  fix c :: call and cs e and t1 :: tester assume "GetBody lib (Body c) t = (Inl e, t1)"
  then show "run_loop lib (c # cs) t = run_loop lib cs (report e t1)"
    by (simp add: run_call_def build_request_def)
next
  fix c :: call and cs b and t1 :: tester and url and t2 :: tester and e
  assume "GetBody lib (Body c) t = (Inr b, t1) \<and> applyTemplate lib t1 (QueryStr c) = (url, t2) \<and>
         http_NewRequest lib (Method c) url b = Inl e"
  then show "run_loop lib (c # cs) t = run_loop lib cs (report e t2)"
    by (simp add: run_call_def build_request_def)
next
  fix c :: call and cs req and t1 :: tester and resp and t2 t3 :: tester
  assume "build_request lib c t = (Some req, t1) \<and> serve req t1 = (resp, t2) \<and>
         capture lib c resp t2 = (None, t3)"
  then show "run_loop lib (c # cs) t = run_loop lib cs t3"
    by (simp add: run_call_def)
next
  fix c :: call and ck :: Checker and cks and resp :: response and b e
  assume "ck resp b (map_option (heap t) (respObject c)) = Some e"
  then show "run_checkers c (ck # cks) resp b t =
           run_checkers c cks resp b
             (report (Named (Name c) e) (t\<lparr>events := events t @ [CheckerRun (Name c)]\<rparr>))"
    by (simp add: Let_def)
next
  assume "Calls t = []"
  then show "Run lib t = t" by (simp add: Run_def)
qed

text \<open>Claim C6 on a call that cannot be built followed by one that is served, and on a
  tester with no call.\<close>

theorem Run_never_aborts_witness:
  "Calls bad_then_good = [example_call ''first'' ''BAD METHOD'' ''/'', example_call ''second'' ''GET'' ''/'']
   \<and> Run example_lib bad_then_good =
       run_loop example_lib []
         (run_call example_lib (example_call ''second'' ''GET'' ''/'')
           (run_loop example_lib [example_call ''first'' ''BAD METHOD'' ''/''] bad_then_good))
   \<and> events (Run example_lib bad_then_good) =
       [Report (External ''invalid method''),
        Served \<lparr>rq_Method = ''GET'', rq_URL = ''/'', rq_Body = [], rq_Header = Map.empty\<rparr>,
        BodyRead ''second'', Stored ''second'' (VMap [''id'' \<mapsto> VNum 7])]
   \<and> Calls (NewTester (answer []) (\<lambda>a. VNil) []) = []
   \<and> Run example_lib (NewTester (answer []) (\<lambda>a. VNil) []) = NewTester (answer []) (\<lambda>a. VNil) []
   \<and> events (Run example_lib (NewTester (answer []) (\<lambda>a. VNil) [])) = []"
proof -
  have c: "Calls bad_then_good =
      [example_call ''first'' ''BAD METHOD'' ''/''] @ example_call ''second'' ''GET'' ''/'' # []"
    by (simp add: bad_then_good_def NewTester_def)
  note th = Run_never_aborts [of example_lib bad_then_good]
  from th[THEN conjunct2, THEN conjunct1, rule_format, OF c]
  have r: "Run example_lib bad_then_good =
       run_loop example_lib []
         (run_call example_lib (example_call ''second'' ''GET'' ''/'')
           (run_loop example_lib [example_call ''first'' ''BAD METHOD'' ''/''] bad_then_good))" .
  have e: "events (run_loop example_lib []
         (run_call example_lib (example_call ''second'' ''GET'' ''/'')
           (run_loop example_lib [example_call ''first'' ''BAD METHOD'' ''/''] bad_then_good))) =
       [Report (External ''invalid method''),
        Served \<lparr>rq_Method = ''GET'', rq_URL = ''/'', rq_Body = [], rq_Header = Map.empty\<rparr>,
        BodyRead ''second'', Stored ''second'' (VMap [''id'' \<mapsto> VNum 7])]"
    by (simp add: bad_then_good_def example_defs)
  have n: "Calls (NewTester (answer []) (\<lambda>a. VNil) []) = []" by (simp add: NewTester_def)
  from Run_never_aborts [of example_lib "NewTester (answer []) (\<lambda>a. VNil) []",
      THEN conjunct2, THEN conjunct2, THEN conjunct2, THEN conjunct2, THEN conjunct2,
      THEN conjunct2, THEN conjunct2, rule_format, OF n]
  have z: "Run example_lib (NewTester (answer []) (\<lambda>a. VNil) []) = NewTester (answer []) (\<lambda>a. VNil) []" .
  have "events (NewTester (answer []) (\<lambda>a. VNil) []) = []" by (simp add: NewTester_def)
  with c r e n z show ?thesis by simp
qed




end
